theory Spec2Isabelle
  imports Complex_Main "HOL-Library.AList" "HOL-Library.Product_Lexorder"
begin

section \<open>Bars and errors\<close>

text \<open>
  Class \<open>OHLCV\<close> of \<open>api/cache.py\<close>. Python floats are read as real numbers: rounding,
  infinities and NaN are outside this development. The field \<open>open\<close> is called
  \<open>open_price\<close> here, since \<open>open\<close> is a reserved word.
\<close>

record OHLCV =
  time :: real
  open_price :: real
  high :: real
  low :: real
  close :: real
  volume :: real

text \<open>The exceptions the modelled code raises, each with its message or key.\<close>

datatype error =
  ValueError string
  | RuntimeError string
  | KeyError string
  | IndexError
  | TypeError
  | ZeroDivisionError
  | AttributeError

section \<open>The combine rule\<close>

text \<open>
  \<open>TimeframeAggregator._aggregate_bars\<close>. Python's \<open>max\<close> and \<open>min\<close> over a generator
  start from the first element and go through the rest from left to right; \<open>sum\<close> starts
  from 0. \<open>bars[-1]\<close> of a non-empty list is its last element.
\<close>

fun aggregate_bars :: "OHLCV list \<Rightarrow> string \<Rightarrow> error + OHLCV" where
  "aggregate_bars [] timeframe =
     Inl (ValueError (''Cannot aggregate empty bar list for '' @ timeframe))"
| "aggregate_bars (b # bs) timeframe =
     Inr \<lparr> time = time b,
           open_price = open_price b,
           high = foldl max (high b) (map high bs),
           low = foldl min (low b) (map low bs),
           close = close (last (b # bs)),
           volume = foldl (+) 0 (map volume (b # bs)) \<rparr>"

text \<open>
  The batch functions of \<open>api/aggregator.py\<close> build the combined bar in place, with the
  same six expressions and no emptiness test: \<open>chunk[0]\<close> raises IndexError on an empty
  list.
\<close>

fun combine_chunk :: "OHLCV list \<Rightarrow> error + OHLCV" where
  "combine_chunk [] = Inl IndexError"
| "combine_chunk (b # bs) =
     Inr \<lparr> time = time b,
           open_price = open_price b,
           high = foldl max (high b) (map high bs),
           low = foldl min (low b) (map low bs),
           close = close (last (b # bs)),
           volume = foldl (+) 0 (map volume (b # bs)) \<rparr>"

text \<open>
  The combine rule in the words of the specification: first time, first open, greatest
  high, least low, last close, sum of the volumes. It is meant for non-empty sequences.
\<close>

definition combine_spec :: "OHLCV list \<Rightarrow> OHLCV" where
  "combine_spec bars =
     \<lparr> time = time (hd bars),
       open_price = open_price (hd bars),
       high = Max (high ` set bars),
       low = Min (low ` set bars),
       close = close (last bars),
       volume = sum_list (map volume bars) \<rparr>"

section \<open>Calendar dates\<close>

text \<open>
  What the code reads of a \<open>datetime\<close>: its year, month and day. The conversion
  \<open>datetime.fromtimestamp\<close> depends on the time zone of the process, so the functions
  that call it take it as the parameter \<open>fromtimestamp\<close>; \<open>fromtimestamp_utc\<close> below
  is the conversion of a process running in UTC.
\<close>

record datetime =
  year :: int
  month :: nat
  day :: nat

text \<open>
  The proleptic Gregorian calendar, by days since 1970-01-01: the date of a day number
  and the day number of a date, computed over 400-year eras of 146097 days with the year
  starting in March.
\<close>

definition civil_from_days :: "int \<Rightarrow> datetime" where
  "civil_from_days z =
     (let z' = z + 719468;
          era = z' div 146097;
          doe = z' mod 146097;
          yoe = (doe - doe div 1460 + doe div 36524 - doe div 146096) div 365;
          doy = doe - (365 * yoe + yoe div 4 - yoe div 100);
          mp = (5 * doy + 2) div 153;
          d = doy - (153 * mp + 2) div 5 + 1;
          m = (if mp < 10 then mp + 3 else mp - 9);
          y = yoe + era * 400
      in \<lparr> year = (if m \<le> 2 then y + 1 else y), month = nat m, day = nat d \<rparr>)"

definition fromtimestamp_utc :: "real \<Rightarrow> datetime" where
  "fromtimestamp_utc t = civil_from_days (\<lfloor>t\<rfloor> div 86400)"

section \<open>The live aggregation engine\<close>

text \<open>
  The class constant \<open>TimeframeAggregator.TIMEFRAMES\<close>: for each timeframe the number of
  bars in a period (\<open>None\<close> for the calendar month) and the seconds in a period.
\<close>

definition TIMEFRAMES :: "(string \<times> (nat option \<times> nat)) list" where
  "TIMEFRAMES =
     [(''1m'', (Some 1, 60)),
      (''5m'', (Some 5, 300)),
      (''15m'', (Some 15, 900)),
      (''30m'', (Some 30, 1800)),
      (''1H'', (Some 60, 3600)),
      (''4H'', (Some 240, 14400)),
      (''1D'', (Some 1440, 86400)),
      (''1W'', (Some 5, 604800)),
      (''1M'', (None, 2592000))]"

text \<open>
  A \<open>collections.deque\<close> with a bound: \<open>append\<close> adds at the right end and, when the
  bound is exceeded, removes the leftmost element.
\<close>

record deque =
  maxlen :: nat
  items :: "OHLCV list"

definition deque_append :: "deque \<Rightarrow> OHLCV \<Rightarrow> deque" where
  "deque_append d x =
     (let xs = items d @ [x]
      in d\<lparr>items := (if maxlen d < length xs then tl xs else xs)\<rparr>)"

text \<open>
  The state of a \<open>TimeframeAggregator\<close>: the dictionary \<open>_buffers\<close>, in insertion
  order, and the list \<open>_daily_bars\<close>. \<open>init_aggregator\<close> is \<open>__init__\<close>.
\<close>

record aggregator =
  buffers :: "(string \<times> deque) list"
  daily_bars :: "OHLCV list"

definition init_aggregator :: aggregator where
  "init_aggregator =
     \<lparr> buffers =
         [(''5m'', \<lparr>maxlen = 5, items = []\<rparr>),
          (''15m'', \<lparr>maxlen = 15, items = []\<rparr>),
          (''30m'', \<lparr>maxlen = 30, items = []\<rparr>),
          (''1H'', \<lparr>maxlen = 60, items = []\<rparr>),
          (''4H'', \<lparr>maxlen = 240, items = []\<rparr>),
          (''1D'', \<lparr>maxlen = 1440, items = []\<rparr>),
          (''1W'', \<lparr>maxlen = 5, items = []\<rparr>),
          (''1M'', \<lparr>maxlen = 31, items = []\<rparr>)],
       daily_bars = [] \<rparr>"

text \<open>
  \<open>_aggregate_monthly\<close>. The loop goes through the daily bars from the last one
  backwards, collects the bars of the latest bar's month and year, and stops at the
  first bar of another month. The result is \<open>None\<close> when there is nothing to combine.
\<close>

fun month_scan ::
  "(real \<Rightarrow> datetime) \<Rightarrow> datetime \<Rightarrow> OHLCV list \<Rightarrow> OHLCV list \<Rightarrow> OHLCV list" where
  "month_scan fromtimestamp latest_date [] current_month_bars = current_month_bars"
| "month_scan fromtimestamp latest_date (bar # rest) current_month_bars =
     (let bar_date = fromtimestamp (time bar)
      in if month bar_date = month latest_date \<and> year bar_date = year latest_date
         then month_scan fromtimestamp latest_date rest (current_month_bars @ [bar])
         else current_month_bars)"

definition aggregate_monthly ::
  "(real \<Rightarrow> datetime) \<Rightarrow> OHLCV list \<Rightarrow> error + OHLCV option" where
  "aggregate_monthly fromtimestamp dbars =
     (if dbars = [] then Inr None
      else
        let latest_bar = last dbars;
            latest_date = fromtimestamp (time latest_bar);
            current_month_bars = month_scan fromtimestamp latest_date (rev dbars) []
        in if current_month_bars = [] then Inr None
           else (case aggregate_bars (rev current_month_bars) ''1M'' of
                   Inl e \<Rightarrow> Inl e
                 | Inr monthly_bar \<Rightarrow> Inr (Some monthly_bar)))"

text \<open>
  \<open>add_1m_bar\<close>. The result dictionary is an association list in insertion order;
  \<open>result[k] = v\<close> is \<open>AList.update k v\<close>, and a lookup is \<open>map_of\<close>. A lookup of a missing
  key in \<open>_buffers\<close> or \<open>TIMEFRAMES\<close> raises KeyError, and comparing a length with the
  \<open>None\<close> of the month's entry raises TypeError.

  First the loop over the intraday timeframes.
\<close>

fun aggregate_intraday ::
  "(string \<times> deque) list \<Rightarrow> string list \<Rightarrow> (string \<times> OHLCV list) list
     \<Rightarrow> error + (string \<times> OHLCV list) list" where
  "aggregate_intraday bufs [] result = Inr result"
| "aggregate_intraday bufs (timeframe # rest) result =
     (case map_of bufs timeframe of
        None \<Rightarrow> Inl (KeyError timeframe)
      | Some buf \<Rightarrow>
          (case map_of TIMEFRAMES timeframe of
             None \<Rightarrow> Inl (KeyError timeframe)
           | Some (None, secs) \<Rightarrow> Inl TypeError
           | Some (Some bars_in_period, secs) \<Rightarrow>
               if bars_in_period \<le> length (items buf)
               then (case aggregate_bars (items buf) timeframe of
                       Inl e \<Rightarrow> Inl e
                     | Inr aggregated \<Rightarrow>
                         aggregate_intraday bufs rest
                           (AList.update timeframe [aggregated] result))
               else aggregate_intraday bufs rest result))"

text \<open>The weekly and monthly part, run once a daily bar has been appended.\<close>

definition aggregate_weekly_monthly ::
  "(real \<Rightarrow> datetime) \<Rightarrow> OHLCV list \<Rightarrow> (string \<times> OHLCV list) list
     \<Rightarrow> error + (string \<times> OHLCV list) list" where
  "aggregate_weekly_monthly fromtimestamp dbars result =
     (case (if 5 \<le> length dbars
            then (case aggregate_bars (drop (length dbars - 5) dbars) ''1W'' of
                    Inl e \<Rightarrow> Inl e
                  | Inr weekly_bar \<Rightarrow> Inr (AList.update ''1W'' [weekly_bar] result))
            else Inr result) of
        Inl e \<Rightarrow> Inl e
      | Inr result' \<Rightarrow>
          (case aggregate_monthly fromtimestamp dbars of
             Inl e \<Rightarrow> Inl e
           | Inr None \<Rightarrow> Inr result'
           | Inr (Some monthly_bar) \<Rightarrow> Inr (AList.update ''1M'' [monthly_bar] result')))"

definition add_1m_bar ::
  "(real \<Rightarrow> datetime) \<Rightarrow> aggregator \<Rightarrow> OHLCV
     \<Rightarrow> error + (aggregator \<times> (string \<times> OHLCV list) list)" where
  "add_1m_bar fromtimestamp s bar =
     (let bufs = map (\<lambda>(timeframe, buf).
                   if timeframe \<noteq> ''1W'' \<and> timeframe \<noteq> ''1M''
                   then (timeframe, deque_append buf bar) else (timeframe, buf))
                 (buffers s)
      in case aggregate_intraday bufs [''5m'', ''15m'', ''30m'', ''1H'', ''4H'']
                [(''1m'', [bar])] of
           Inl e \<Rightarrow> Inl e
         | Inr result \<Rightarrow>
             (case map_of bufs ''1D'' of
                None \<Rightarrow> Inl (KeyError ''1D'')
              | Some buf \<Rightarrow>
                  (case map_of TIMEFRAMES ''1D'' of
                     None \<Rightarrow> Inl (KeyError ''1D'')
                   | Some (None, secs) \<Rightarrow> Inl TypeError
                   | Some (Some bars_in_period, secs) \<Rightarrow>
                       if bars_in_period \<le> length (items buf)
                       then (case aggregate_bars (items buf) ''1D'' of
                               Inl e \<Rightarrow> Inl e
                             | Inr daily_bar \<Rightarrow>
                                 (let dbars = daily_bars s @ [daily_bar]
                                  in case aggregate_weekly_monthly fromtimestamp dbars
                                            (AList.update ''1D'' [daily_bar] result) of
                                       Inl e \<Rightarrow> Inl e
                                     | Inr result' \<Rightarrow>
                                         Inr (s\<lparr>buffers := bufs, daily_bars := dbars\<rparr>,
                                              result')))
                       else Inr (s\<lparr>buffers := bufs\<rparr>, result))))"

text \<open>
  Feeding a sequence of 1-minute bars in order, as the loop of \<open>_process_bars\<close> does:
  the state after the last bar.
\<close>

fun feed :: "(real \<Rightarrow> datetime) \<Rightarrow> aggregator \<Rightarrow> OHLCV list \<Rightarrow> error + aggregator" where
  "feed fromtimestamp s [] = Inr s"
| "feed fromtimestamp s (bar # rest) =
     (case add_1m_bar fromtimestamp s bar of
        Inl e \<Rightarrow> Inl e
      | Inr (s', result) \<Rightarrow> feed fromtimestamp s' rest)"

section \<open>Notions used in the statements about the live engine\<close>

text \<open>
  The definitions of this section are not code of the repository: they name the
  quantities the statements below are about (the last \<open>n\<close> elements of a list, the
  content of a window after one more bar, the trailing run of one month) and the closed
  forms the proofs go through.
\<close>

definition lastn :: "nat \<Rightarrow> 'a list \<Rightarrow> 'a list" where
  "lastn n xs = drop (length xs - n) xs"

definition push :: "nat \<Rightarrow> OHLCV list \<Rightarrow> OHLCV \<Rightarrow> OHLCV list" where
  "push n w b = (if n < Suc (length w) then tl (w @ [b]) else w @ [b])"

definition mk_buffers ::
  "OHLCV list \<Rightarrow> OHLCV list \<Rightarrow> OHLCV list \<Rightarrow> OHLCV list \<Rightarrow> OHLCV list \<Rightarrow> OHLCV list
     \<Rightarrow> deque \<Rightarrow> deque \<Rightarrow> (string \<times> deque) list" where
  "mk_buffers w5 w15 w30 w60 w240 w1440 dW dM =
     [(''5m'', \<lparr>maxlen = 5, items = w5\<rparr>),
      (''15m'', \<lparr>maxlen = 15, items = w15\<rparr>),
      (''30m'', \<lparr>maxlen = 30, items = w30\<rparr>),
      (''1H'', \<lparr>maxlen = 60, items = w60\<rparr>),
      (''4H'', \<lparr>maxlen = 240, items = w240\<rparr>),
      (''1D'', \<lparr>maxlen = 1440, items = w1440\<rparr>),
      (''1W'', dW),
      (''1M'', dM)]"

definition emit :: "string \<Rightarrow> nat \<Rightarrow> OHLCV list \<Rightarrow> (string \<times> OHLCV list) list" where
  "emit tf n w = (if n \<le> length w then [(tf, [combine_spec w])] else [])"

definition same_month :: "(real \<Rightarrow> datetime) \<Rightarrow> datetime \<Rightarrow> OHLCV \<Rightarrow> bool" where
  "same_month fts d bar \<longleftrightarrow> month (fts (time bar)) = month d \<and> year (fts (time bar)) = year d"

definition month_run :: "(real \<Rightarrow> datetime) \<Rightarrow> OHLCV list \<Rightarrow> OHLCV list" where
  "month_run fts ds = rev (takeWhile (same_month fts (fts (time (last ds)))) (rev ds))"

definition weekly_monthly_spec ::
  "(real \<Rightarrow> datetime) \<Rightarrow> OHLCV list \<Rightarrow> (string \<times> OHLCV list) list" where
  "weekly_monthly_spec fts ds =
     (if 5 \<le> length ds then [(''1W'', [combine_spec (lastn 5 ds)])] else [])
     @ [(''1M'', [combine_spec (month_run fts ds)])]"

definition intraday_spec :: "OHLCV \<Rightarrow> OHLCV list \<Rightarrow> OHLCV list \<Rightarrow> OHLCV list \<Rightarrow> OHLCV list \<Rightarrow> OHLCV list \<Rightarrow> (string \<times> OHLCV list) list" where
  "intraday_spec b w5 w15 w30 w60 w240 =
     [(''1m'', [b])] @ emit ''5m'' 5 w5 @ emit ''15m'' 15 w15
          @ emit ''30m'' 30 w30 @ emit ''1H'' 60 w60 @ emit ''4H'' 240 w240"

definition has_windows :: "aggregator \<Rightarrow> bool" where
  "has_windows s \<longleftrightarrow>
     map (\<lambda>(timeframe, buf). (timeframe, maxlen buf)) (buffers s) =
       [(''5m'', 5), (''15m'', 15), (''30m'', 30), (''1H'', 60), (''4H'', 240),
        (''1D'', 1440), (''1W'', 5), (''1M'', 31)]"

definition fed_buffers :: "OHLCV list \<Rightarrow> (string \<times> deque) list" where
  "fed_buffers bs =
     mk_buffers (lastn 5 bs) (lastn 15 bs) (lastn 30 bs) (lastn 60 bs) (lastn 240 bs)
       (lastn 1440 bs) \<lparr>maxlen = 5, items = []\<rparr> \<lparr>maxlen = 31, items = []\<rparr>"

definition step_result ::
  "(real \<Rightarrow> datetime) \<Rightarrow> OHLCV \<Rightarrow> OHLCV list \<Rightarrow> OHLCV list \<Rightarrow> OHLCV list \<Rightarrow> OHLCV list
     \<Rightarrow> OHLCV list \<Rightarrow> OHLCV list \<Rightarrow> OHLCV list \<Rightarrow> (string \<times> OHLCV list) list" where
  "step_result fts b v5 v15 v30 v60 v240 v1440 ds =
     (if 1440 \<le> length v1440
      then intraday_spec b v5 v15 v30 v60 v240 @ [(''1D'', [combine_spec v1440])]
             @ weekly_monthly_spec fts (ds @ [combine_spec v1440])
      else intraday_spec b v5 v15 v30 v60 v240)"

text \<open>
  The day number of a date (days since 1970-01-01), the proleptic Gregorian ordinal of
  \<open>date.toordinal\<close> (0001-01-01 is day 1) and the ISO week number \<open>isocalendar()[1]\<close>, as
  the standard library computes them: week 1 is the week with the year's first Thursday.
\<close>

definition days_from_civil :: "int \<Rightarrow> nat \<Rightarrow> nat \<Rightarrow> int" where
  "days_from_civil y m d =
     (let y' = (if m \<le> 2 then y - 1 else y);
          era = y' div 400;
          yoe = y' mod 400;
          mp = (if 2 < m then int m - 3 else int m + 9);
          doy = (153 * mp + 2) div 5 + int d - 1;
          doe = yoe * 365 + yoe div 4 - yoe div 100 + doy
      in era * 146097 + doe - 719468)"

definition toordinal :: "datetime \<Rightarrow> int" where
  "toordinal dt = days_from_civil (year dt) (month dt) (day dt) + 719163"

definition isoweek1monday :: "int \<Rightarrow> int" where
  "isoweek1monday yr =
     (let firstday = toordinal \<lparr>year = yr, month = 1, day = 1\<rparr>;
          firstweekday = (firstday + 6) mod 7;
          week1monday = firstday - firstweekday
      in if 3 < firstweekday then week1monday + 7 else week1monday)"

definition isocalendar_week :: "datetime \<Rightarrow> int" where
  "isocalendar_week dt =
     (let today = toordinal dt;
          week = (today - isoweek1monday (year dt)) div 7
      in if week < 0 then (today - isoweek1monday (year dt - 1)) div 7 + 1
         else if 52 \<le> week \<and> isoweek1monday (year dt + 1) \<le> today then 1
         else week + 1)"

text \<open>\<open>datetime.date()\<close>, compared as Python compares dates: by year, month, day.\<close>

definition date_of :: "datetime \<Rightarrow> int \<times> nat \<times> nat" where
  "date_of dt = (year dt, month dt, day dt)"

section \<open>The historical batch aggregator\<close>

text \<open>
  The grouping loops of \<open>_aggregate_to_daily\<close> and \<open>_aggregate_to_weekly\<close>: a dictionary
  from a key to the list of its bars, in insertion order. A bar whose key is new starts a
  list; otherwise it is appended to the list of its key.
\<close>

fun group_bars :: "(OHLCV \<Rightarrow> 'k) \<Rightarrow> OHLCV list \<Rightarrow> ('k \<times> OHLCV list) list
    \<Rightarrow> ('k \<times> OHLCV list) list" where
  "group_bars key [] groups = groups"
| "group_bars key (bar # rest) groups =
     (case map_of groups (key bar) of
        None \<Rightarrow> group_bars key rest (AList.update (key bar) [bar] groups)
      | Some bars \<Rightarrow> group_bars key rest (AList.update (key bar) (bars @ [bar]) groups))"

text \<open>The loop that combines each group, in the order given.\<close>

fun combine_groups :: "('k \<times> OHLCV list) list \<Rightarrow> error + OHLCV list" where
  "combine_groups [] = Inr []"
| "combine_groups ((k, bars) # rest) =
     (case combine_chunk bars of
        Inl e \<Rightarrow> Inl e
      | Inr bar \<Rightarrow>
          (case combine_groups rest of
             Inl e \<Rightarrow> Inl e
           | Inr out \<Rightarrow> Inr (bar # out)))"

text \<open>
  \<open>_aggregate_to_daily\<close> and \<open>_aggregate_to_weekly\<close>: group, sort the groups by key
  (\<open>sorted\<close> over the items of a dictionary, whose keys are distinct), combine.
\<close>

definition aggregate_to_daily :: "(real \<Rightarrow> datetime) \<Rightarrow> OHLCV list \<Rightarrow> error + OHLCV list" where
  "aggregate_to_daily fromtimestamp bars_1m =
     combine_groups
       (sort_key fst (group_bars (\<lambda>bar. date_of (fromtimestamp (time bar))) bars_1m []))"

definition aggregate_to_weekly :: "(real \<Rightarrow> datetime) \<Rightarrow> OHLCV list \<Rightarrow> error + OHLCV list" where
  "aggregate_to_weekly fromtimestamp dbars =
     combine_groups
       (sort_key fst
          (group_bars (\<lambda>bar. (year (fromtimestamp (time bar)),
                               isocalendar_week (fromtimestamp (time bar)))) dbars []))"

text \<open>
  The chunk loop of \<open>aggregate_historical_1m_to_timeframe\<close>:
  \<open>for i in range(0, len(bars_1m), bars_needed)\<close>, with the chunk \<open>bars_1m[i:i + bars_needed]\<close>
  combined when it is full. \<open>range\<close> raises ValueError for a step of 0.
\<close>

function chunk_loop :: "nat \<Rightarrow> OHLCV list \<Rightarrow> nat \<Rightarrow> OHLCV list \<Rightarrow> error + OHLCV list" where
  "chunk_loop bars_needed bars_1m i aggregated_bars =
     (if bars_needed = 0 then Inl (ValueError ''range() arg 3 must not be zero'')
      else if length bars_1m \<le> i then Inr aggregated_bars
      else
        let chunk = take bars_needed (drop i bars_1m)
        in if length chunk = bars_needed
           then (case combine_chunk chunk of
                   Inl e \<Rightarrow> Inl e
                 | Inr bar \<Rightarrow>
                     chunk_loop bars_needed bars_1m (i + bars_needed) (aggregated_bars @ [bar]))
           else chunk_loop bars_needed bars_1m (i + bars_needed) aggregated_bars)"
  by pat_completeness auto
termination
  by (relation "measure (\<lambda>(n, bars, i, acc). length bars - i)") auto

declare chunk_loop.simps [simp del]

definition aggregate_historical_1m_to_timeframe ::
  "(real \<Rightarrow> datetime) \<Rightarrow> OHLCV list \<Rightarrow> string \<Rightarrow> error + OHLCV list" where
  "aggregate_historical_1m_to_timeframe fromtimestamp bars_1m target_timeframe =
     (if target_timeframe = ''1m'' then Inr bars_1m
      else
        (case map_of TIMEFRAMES target_timeframe of
           None \<Rightarrow> Inl (ValueError (''Unknown timeframe: '' @ target_timeframe))
         | Some (None, secs) \<Rightarrow>
             Inl (ValueError (''Cannot aggregate to '' @ target_timeframe @ '' (variable bars)''))
         | Some (Some bars_needed, secs) \<Rightarrow>
             if bars_needed = 5
             then (case aggregate_to_daily fromtimestamp bars_1m of
                     Inl e \<Rightarrow> Inl e
                   | Inr dbars \<Rightarrow> aggregate_to_weekly fromtimestamp dbars)
             else chunk_loop bars_needed bars_1m 0 []))"

text \<open>
  Not code of the repository: the full chunks of \<open>n\<close> consecutive bars, in the words of
  the specification (non-overlapping, the trailing partial chunk left out).
\<close>

definition full_chunks :: "nat \<Rightarrow> OHLCV list \<Rightarrow> OHLCV list list" where
  "full_chunks n bars = map (\<lambda>j. take n (drop (j * n) bars)) [0..<length bars div n]"

section \<open>The rate limiter\<close>

text \<open>
  Class \<open>RateLimiter\<close> of \<open>api/rate_limiter.py\<close>. The wall clock is explicit: \<open>time.time()\<close>
  reads the clock value passed in, and \<open>time.sleep(d)\<close> moves it forward by exactly \<open>d\<close>.
  The token count is a real number. A division by a zero \<open>period\<close> or \<open>rate_limit\<close>
  raises ZeroDivisionError.
\<close>

record RateLimiter =
  rate_limit :: int
  period :: int
  tokens :: real
  last_update :: real

definition RateLimiter_init :: "int \<Rightarrow> int \<Rightarrow> real \<Rightarrow> RateLimiter" where
  "RateLimiter_init rl p clock =
     \<lparr> rate_limit = rl, period = p, tokens = real_of_int rl, last_update = clock \<rparr>"

text \<open>
  \<open>wait_if_needed\<close>: the limiter and the clock after the call, and how long the call
  slept (\<open>None\<close> on the branch that does not wait).
\<close>

definition wait_if_needed ::
  "RateLimiter \<Rightarrow> real \<Rightarrow> error + (RateLimiter \<times> real \<times> real option)" where
  "wait_if_needed self clock =
     (let now = clock;
          elapsed = now - last_update self
      in if period self = 0 then Inl ZeroDivisionError
         else
           let tokens_to_add = elapsed * (real_of_int (rate_limit self) / real_of_int (period self));
               self1 = self\<lparr>tokens := min (real_of_int (rate_limit self)) (tokens self + tokens_to_add),
                            last_update := now\<rparr>
           in if tokens self1 < 1
              then (if rate_limit self1 = 0 then Inl ZeroDivisionError
                    else
                      let wait_time = (1 / real_of_int (rate_limit self1)) * real_of_int (period self1);
                          clock' = clock + wait_time;
                          self2 = self1\<lparr>tokens := real_of_int (rate_limit self1),
                                        last_update := clock'\<rparr>
                      in Inr (self2\<lparr>tokens := tokens self2 - 1\<rparr>, clock', Some wait_time))
              else Inr (self1\<lparr>tokens := tokens self1 - 1\<rparr>, clock, None))"

text \<open>\<open>get_available_tokens\<close>: the refilled count, with no change of state.\<close>

definition get_available_tokens :: "RateLimiter \<Rightarrow> real \<Rightarrow> error + real" where
  "get_available_tokens self clock =
     (let now = clock;
          elapsed = now - last_update self
      in if period self = 0 then Inl ZeroDivisionError
         else
           let tokens_to_add = elapsed * (real_of_int (rate_limit self) / real_of_int (period self))
           in Inr (min (real_of_int (rate_limit self)) (tokens self + tokens_to_add)))"

text \<open>
  A number of calls of \<open>wait_if_needed\<close> one after the other, with no time passing between
  them: the clock moves only when a call sleeps. The result lists what each call slept.
\<close>

fun acquire_many ::
  "nat \<Rightarrow> RateLimiter \<Rightarrow> real \<Rightarrow> error + (RateLimiter \<times> real \<times> real option list)" where
  "acquire_many 0 self clock = Inr (self, clock, [])"
| "acquire_many (Suc n) self clock =
     (case wait_if_needed self clock of
        Inl e \<Rightarrow> Inl e
      | Inr (self', clock', slept) \<Rightarrow>
          (case acquire_many n self' clock' of
             Inl e \<Rightarrow> Inl e
           | Inr (self'', clock'', sleeps) \<Rightarrow> Inr (self'', clock'', slept # sleeps)))"

section \<open>The data cache\<close>

text \<open>
  Class \<open>DataCache\<close> of \<open>api/cache.py\<close>: the dictionary \<open>_cache\<close> from (symbol, timeframe)
  to a bar series, as an association list in insertion order, and the two counters. The
  lock is not modelled: each operation is one atomic step. The methods \<open>get\<close>, \<open>set\<close>
  and \<open>clear\<close> are called \<open>cache_get\<close>, \<open>cache_set\<close> and \<open>cache_clear\<close> here.
\<close>

record DataCache =
  cache :: "((string \<times> string) \<times> OHLCV list) list"
  cache_hits :: int
  cache_misses :: int




definition has :: "DataCache \<Rightarrow> string \<Rightarrow> string \<Rightarrow> bool" where
  "has self symbol timeframe \<longleftrightarrow> map_of (cache self) (symbol, timeframe) \<noteq> None"






section \<open>Properties of the combine rule\<close>

lemma foldl_max_Max: "foldl max (x::real) xs = Max (set (x # xs))"
proof (induction xs arbitrary: x)
  case Nil
  show ?case by simp
next
  case (Cons y ys)
  have "foldl max x (y # ys) = Max (set (max x y # ys))"
    using Cons.IH by simp
  also have "\<dots> = Max (insert x (insert y (set ys)))"
    by (cases "ys = []") (simp_all add: Max_insert max.assoc)
  finally show ?case by simp
qed

lemma foldl_min_Min: "foldl min (x::real) xs = Min (set (x # xs))"
proof (induction xs arbitrary: x)
  case Nil
  show ?case by simp
next
  case (Cons y ys)
  have "foldl min x (y # ys) = Min (set (min x y # ys))"
    using Cons.IH by simp
  also have "\<dots> = Min (insert x (insert y (set ys)))"
    by (cases "ys = []") (simp_all add: Min_insert min.assoc)
  finally show ?case by simp
qed

lemma foldl_add_sum_list: "foldl (+) (a::real) xs = a + sum_list xs"
  by (induction xs arbitrary: a) (simp_all add: add.assoc)

lemma aggregate_bars_nonempty:
  "bars \<noteq> [] \<Longrightarrow> aggregate_bars bars tf = Inr (combine_spec bars)"
proof (cases bars)
  case Nil
  assume "bars \<noteq> []"
  with Nil show ?thesis by simp
next
  case (Cons b bs)
  have h: "foldl max (high b) (map high bs) = Max (high ` set (b # bs))"
    by (simp add: foldl_max_Max)
  have l: "foldl min (low b) (map low bs) = Min (low ` set (b # bs))"
    by (simp add: foldl_min_Min)
  have v: "foldl (+) 0 (map volume (b # bs)) = sum_list (map volume (b # bs))"
    by (simp add: foldl_add_sum_list)
  show ?thesis
    unfolding Cons combine_spec_def aggregate_bars.simps h l v by simp
qed

lemma combine_chunk_nonempty:
  "bars \<noteq> [] \<Longrightarrow> combine_chunk bars = Inr (combine_spec bars)"
proof (cases bars)
  case Nil
  assume "bars \<noteq> []"
  with Nil show ?thesis by simp
next
  case (Cons b bs)
  have h: "foldl max (high b) (map high bs) = Max (high ` set (b # bs))"
    by (simp add: foldl_max_Max)
  have l: "foldl min (low b) (map low bs) = Min (low ` set (b # bs))"
    by (simp add: foldl_min_Min)
  have v: "foldl (+) 0 (map volume (b # bs)) = sum_list (map volume (b # bs))"
    by (simp add: foldl_add_sum_list)
  show ?thesis
    unfolding Cons combine_spec_def combine_chunk.simps h l v by simp
qed

text \<open>
  Claim C1. For every non-empty sequence of bars, both the live engine's
  \<open>_aggregate_bars\<close> and the batch path's chunk combination return a bar whose time and
  open are those of the first bar, whose high is the greatest high, whose low is the
  least low, whose close is the last bar's close and whose volume is the sum of the
  volumes; on the empty sequence both fail with an error.
\<close>

theorem aggregate_bars_combine_rule:
  "(\<exists>e. aggregate_bars [] tf = Inl e) \<and> (\<exists>e. combine_chunk [] = Inl e) \<and>
   (bars \<noteq> [] \<longrightarrow>
     (\<exists>agg. aggregate_bars bars tf = Inr agg \<and> combine_chunk bars = Inr agg \<and>
        time agg = time (hd bars) \<and>
        open_price agg = open_price (hd bars) \<and>
        high agg = Max (high ` set bars) \<and>
        low agg = Min (low ` set bars) \<and>
        close agg = close (last bars) \<and>
        volume agg = sum_list (map volume bars)))"
proof (intro conjI impI)
  show "\<exists>e. aggregate_bars [] tf = Inl e" by simp
  show "\<exists>e. combine_chunk [] = Inl e" by simp
next
  assume ne: "bars \<noteq> []"
  have a: "aggregate_bars bars tf = Inr (combine_spec bars)"
    using ne by (rule aggregate_bars_nonempty)
  have c: "combine_chunk bars = Inr (combine_spec bars)"
    using ne by (rule combine_chunk_nonempty)
  show "\<exists>agg. aggregate_bars bars tf = Inr agg \<and> combine_chunk bars = Inr agg \<and>
        time agg = time (hd bars) \<and>
        open_price agg = open_price (hd bars) \<and>
        high agg = Max (high ` set bars) \<and>
        low agg = Min (low ` set bars) \<and>
        close agg = close (last bars) \<and>
        volume agg = sum_list (map volume bars)"
    using a c by (simp add: combine_spec_def)
qed

theorem aggregate_bars_combine_rule_witness:
  "aggregate_bars
     [\<lparr>time = 0, open_price = 10, high = 12, low = 9, close = 11, volume = 100\<rparr>,
      \<lparr>time = 60, open_price = 11, high = 15, low = 10, close = 14, volume = 50\<rparr>,
      \<lparr>time = 120, open_price = 14, high = 14, low = 8, close = 9, volume = 25\<rparr>] ''5m''
   = Inr \<lparr>time = 0, open_price = 10, high = 15, low = 8, close = 9, volume = 175\<rparr>"
  using aggregate_bars_combine_rule
    [of "''5m''"
        "[\<lparr>time = 0, open_price = 10, high = 12, low = 9, close = 11, volume = 100\<rparr>,
          \<lparr>time = 60, open_price = 11, high = 15, low = 10, close = 14, volume = 50\<rparr>,
          \<lparr>time = 120, open_price = 14, high = 14, low = 8, close = 9, volume = 25\<rparr>]"]
  by simp

section \<open>One step of the live engine\<close>

lemma push_nonempty: "0 < n \<Longrightarrow> push n w b \<noteq> []"
  by (cases w) (auto simp: push_def)

lemma deque_append_push:
  "deque_append \<lparr>maxlen = n, items = w\<rparr> b = \<lparr>maxlen = n, items = push n w b\<rparr>"
  by (simp add: deque_append_def push_def Let_def)

lemma buffers_step:
  "map (\<lambda>(timeframe, buf).
          if timeframe \<noteq> ''1W'' \<and> timeframe \<noteq> ''1M''
          then (timeframe, deque_append buf b) else (timeframe, buf))
       (mk_buffers w5 w15 w30 w60 w240 w1440 dW dM)
   = mk_buffers (push 5 w5 b) (push 15 w15 b) (push 30 w30 b) (push 60 w60 b)
       (push 240 w240 b) (push 1440 w1440 b) dW dM"
  by (simp add: mk_buffers_def deque_append_push)

lemma intraday_mk_buffers:
  assumes "w5 \<noteq> []" "w15 \<noteq> []" "w30 \<noteq> []" "w60 \<noteq> []" "w240 \<noteq> []"
  shows "aggregate_intraday (mk_buffers w5 w15 w30 w60 w240 w1440 dW dM)
     [''5m'', ''15m'', ''30m'', ''1H'', ''4H''] [(''1m'', [b])]
   = Inr ([(''1m'', [b])] @ emit ''5m'' 5 w5 @ emit ''15m'' 15 w15
          @ emit ''30m'' 30 w30 @ emit ''1H'' 60 w60 @ emit ''4H'' 240 w240)"
  using assms
  by (simp add: mk_buffers_def TIMEFRAMES_def aggregate_bars_nonempty emit_def
        del: aggregate_bars.simps)

lemma month_scan_takeWhile:
  "month_scan fts d xs acc = acc @ takeWhile (same_month fts d) xs"
  by (induction xs arbitrary: acc) (simp_all add: same_month_def Let_def)

lemma month_run_nonempty: "ds \<noteq> [] \<Longrightarrow> month_run fts ds \<noteq> []"
proof -
  assume "ds \<noteq> []"
  then obtain x xs where r: "rev ds = x # xs" and l: "last ds = x"
    by (cases ds rule: rev_cases) auto
  show ?thesis
    by (simp add: month_run_def r l same_month_def)
qed

lemma aggregate_monthly_run:
  "ds \<noteq> [] \<Longrightarrow> aggregate_monthly fts ds = Inr (Some (combine_spec (month_run fts ds)))"
  using month_run_nonempty [of ds fts]
  by (simp add: aggregate_monthly_def Let_def month_scan_takeWhile month_run_def
        aggregate_bars_nonempty del: aggregate_bars.simps)

lemma update_fresh: "k \<notin> fst ` set al \<Longrightarrow> AList.update k v al = al @ [(k, v)]"
  by (induction al) auto

lemma lastn_nonempty: "0 < n \<Longrightarrow> xs \<noteq> [] \<Longrightarrow> lastn n xs \<noteq> []"
  by (cases xs rule: rev_cases) (simp_all add: lastn_def)

lemma weekly_monthly_result:
  assumes "ds \<noteq> []" "''1W'' \<notin> fst ` set result" "''1M'' \<notin> fst ` set result"
  shows "aggregate_weekly_monthly fts ds result = Inr (result @ weekly_monthly_spec fts ds)"
proof -
  have w: "aggregate_bars (drop (length ds - 5) ds) ''1W'' = Inr (combine_spec (lastn 5 ds))"
    using lastn_nonempty [of 5 ds] assms(1)
    by (simp add: aggregate_bars_nonempty lastn_def del: aggregate_bars.simps)
  show ?thesis
    using assms
    by (simp add: aggregate_weekly_monthly_def w aggregate_monthly_run update_fresh
          weekly_monthly_spec_def del: aggregate_bars.simps)
qed

lemma intraday_spec_keys:
  "''1D'' \<notin> fst ` set (intraday_spec b w5 w15 w30 w60 w240)"
  "''1W'' \<notin> fst ` set (intraday_spec b w5 w15 w30 w60 w240)"
  "''1M'' \<notin> fst ` set (intraday_spec b w5 w15 w30 w60 w240)"
  by (auto simp: intraday_spec_def emit_def split: if_splits)

lemma add_1m_bar_mk_buffers:
  fixes w5 w15 w30 w60 w240 w1440 b
  defines "v5 \<equiv> push 5 w5 b" and "v15 \<equiv> push 15 w15 b" and "v30 \<equiv> push 30 w30 b"
    and "v60 \<equiv> push 60 w60 b" and "v240 \<equiv> push 240 w240 b" and "v1440 \<equiv> push 1440 w1440 b"
  shows "add_1m_bar fts \<lparr>buffers = mk_buffers w5 w15 w30 w60 w240 w1440 dW dM, daily_bars = ds\<rparr> b
    = Inr (if 1440 \<le> length v1440
           then (\<lparr>buffers = mk_buffers v5 v15 v30 v60 v240 v1440 dW dM,
                  daily_bars = ds @ [combine_spec v1440]\<rparr>,
                 intraday_spec b v5 v15 v30 v60 v240 @ [(''1D'', [combine_spec v1440])]
                   @ weekly_monthly_spec fts (ds @ [combine_spec v1440]))
           else (\<lparr>buffers = mk_buffers v5 v15 v30 v60 v240 v1440 dW dM, daily_bars = ds\<rparr>,
                 intraday_spec b v5 v15 v30 v60 v240))"
proof -
  have ne: "v5 \<noteq> []" "v15 \<noteq> []" "v30 \<noteq> []" "v60 \<noteq> []" "v240 \<noteq> []" "v1440 \<noteq> []"
    by (simp_all add: v5_def v15_def v30_def v60_def v240_def v1440_def push_nonempty)
  have i: "aggregate_intraday (mk_buffers v5 v15 v30 v60 v240 v1440 dW dM)
     [''5m'', ''15m'', ''30m'', ''1H'', ''4H''] [(''1m'', [b])]
     = Inr (intraday_spec b v5 v15 v30 v60 v240)"
    unfolding intraday_spec_def using ne(1-5) by (rule intraday_mk_buffers)
  have d: "map_of (mk_buffers v5 v15 v30 v60 v240 v1440 dW dM) ''1D''
     = Some \<lparr>maxlen = 1440, items = v1440\<rparr>"
    by (simp add: mk_buffers_def)
  have t: "map_of TIMEFRAMES ''1D'' = Some (Some 1440, 86400)"
    by (simp add: TIMEFRAMES_def)
  have a: "aggregate_bars v1440 ''1D'' = Inr (combine_spec v1440)"
    using ne by (simp add: aggregate_bars_nonempty)
  have wm: "aggregate_weekly_monthly fts (ds @ [combine_spec v1440])
      (AList.update ''1D'' [combine_spec v1440] (intraday_spec b v5 v15 v30 v60 v240))
    = Inr (intraday_spec b v5 v15 v30 v60 v240 @ [(''1D'', [combine_spec v1440])]
            @ weekly_monthly_spec fts (ds @ [combine_spec v1440]))"
    by (simp add: update_fresh intraday_spec_keys weekly_monthly_result)
  show ?thesis
    using i d a wm unfolding v5_def v15_def v30_def v60_def v240_def v1440_def
    by (simp add: add_1m_bar_def buffers_step t Let_def
          del: aggregate_bars.simps aggregate_intraday.simps)
qed

lemma deque_eq: "d = \<lparr>maxlen = maxlen d, items = items d\<rparr>" for d :: deque
  by simp

lemma has_windows_mk_buffers:
  assumes "has_windows s"
  shows "\<exists>w5 w15 w30 w60 w240 w1440 dW dM.
           buffers s = mk_buffers w5 w15 w30 w60 w240 w1440 dW dM"
proof -
  from assms obtain d5 d15 d30 d60 d240 d1440 dW dM where
    b: "buffers s = [(''5m'', d5), (''15m'', d15), (''30m'', d30), (''1H'', d60),
          (''4H'', d240), (''1D'', d1440), (''1W'', dW), (''1M'', dM)]"
    and m: "maxlen d5 = 5" "maxlen d15 = 15" "maxlen d30 = 30" "maxlen d60 = 60"
       "maxlen d240 = 240" "maxlen d1440 = 1440"
    unfolding has_windows_def by (auto simp: map_eq_Cons_conv)
  have "buffers s = mk_buffers (items d5) (items d15) (items d30) (items d60)
          (items d240) (items d1440) dW dM"
    unfolding b mk_buffers_def
    using m deque_eq [of d5] deque_eq [of d15] deque_eq [of d30] deque_eq [of d60]
      deque_eq [of d240] deque_eq [of d1440]
    by simp
  then show ?thesis by blast
qed

lemma has_windows_of_mk_buffers:
  "maxlen dW = 5 \<Longrightarrow> maxlen dM = 31 \<Longrightarrow>
   has_windows \<lparr>buffers = mk_buffers w5 w15 w30 w60 w240 w1440 dW dM, daily_bars = ds\<rparr>"
  by (simp add: has_windows_def mk_buffers_def)

lemma push_lastn: "0 < n \<Longrightarrow> push n (lastn n bs) b = lastn n (bs @ [b])"
proof (cases "length bs < n")
  case True
  then show ?thesis by (simp add: lastn_def push_def)
next
  case False
  assume pos: "0 < n"
  from False have le: "n \<le> length bs" by simp
  have z: "drop (Suc 0 - n) [b] = [b]" using pos by simp
  have ne: "drop (length bs - n) bs \<noteq> []" using le pos by simp
  have "tl (drop (length bs - n) bs @ [b]) = tl (drop (length bs - n) bs) @ [b]"
    using ne by simp
  also have "\<dots> = drop (Suc (length bs - n)) bs @ [b]"
    by (simp add: drop_Suc tl_drop)
  also have "\<dots> = drop (Suc (length bs) - n) (bs @ [b])"
    using le z by (simp add: Suc_diff_le)
  finally show ?thesis using le pos by (simp add: lastn_def push_def)
qed

lemma length_lastn: "length (lastn n xs) = min n (length xs)"
  by (simp add: lastn_def)

lemma init_aggregator_fed:
  "init_aggregator = \<lparr>buffers = fed_buffers [], daily_bars = []\<rparr>"
  by (simp add: init_aggregator_def fed_buffers_def mk_buffers_def lastn_def)

lemma add_1m_bar_fed:
  "add_1m_bar fts \<lparr>buffers = fed_buffers bs, daily_bars = ds\<rparr> b
    = Inr (if 1440 \<le> Suc (length bs)
           then (\<lparr>buffers = fed_buffers (bs @ [b]),
                  daily_bars = ds @ [combine_spec (lastn 1440 (bs @ [b]))]\<rparr>,
                 intraday_spec b (lastn 5 (bs @ [b])) (lastn 15 (bs @ [b]))
                   (lastn 30 (bs @ [b])) (lastn 60 (bs @ [b])) (lastn 240 (bs @ [b]))
                   @ [(''1D'', [combine_spec (lastn 1440 (bs @ [b]))])]
                   @ weekly_monthly_spec fts (ds @ [combine_spec (lastn 1440 (bs @ [b]))]))
           else (\<lparr>buffers = fed_buffers (bs @ [b]), daily_bars = ds\<rparr>,
                 intraday_spec b (lastn 5 (bs @ [b])) (lastn 15 (bs @ [b]))
                   (lastn 30 (bs @ [b])) (lastn 60 (bs @ [b])) (lastn 240 (bs @ [b]))))"
  unfolding fed_buffers_def add_1m_bar_mk_buffers
  by (simp add: push_lastn length_lastn)

lemma feed_fed:
  "\<exists>ds'. feed fts \<lparr>buffers = fed_buffers bs0, daily_bars = ds\<rparr> bs
           = Inr \<lparr>buffers = fed_buffers (bs0 @ bs), daily_bars = ds'\<rparr>"
proof (induction bs arbitrary: bs0 ds)
  case Nil
  show ?case by simp
next
  case (Cons b bs)
  show ?case
    using Cons.IH [of "bs0 @ [b]"] by (simp add: add_1m_bar_fed)
qed

lemma emit_lookup:
  "map_of (intraday_spec b w5 w15 w30 w60 w240) ''5m'' = (if 5 \<le> length w5 then Some [combine_spec w5] else None)"
  "map_of (intraday_spec b w5 w15 w30 w60 w240) ''15m'' = (if 15 \<le> length w15 then Some [combine_spec w15] else None)"
  "map_of (intraday_spec b w5 w15 w30 w60 w240) ''30m'' = (if 30 \<le> length w30 then Some [combine_spec w30] else None)"
  "map_of (intraday_spec b w5 w15 w30 w60 w240) ''1H'' = (if 60 \<le> length w60 then Some [combine_spec w60] else None)"
  "map_of (intraday_spec b w5 w15 w30 w60 w240) ''4H'' = (if 240 \<le> length w240 then Some [combine_spec w240] else None)"
  "map_of (intraday_spec b w5 w15 w30 w60 w240) ''1D'' = None"
  "map_of (intraday_spec b w5 w15 w30 w60 w240) ''1W'' = None"
  "map_of (intraday_spec b w5 w15 w30 w60 w240) ''1M'' = None"
  by (simp_all add: intraday_spec_def emit_def)

lemma map_of_append_None: "map_of xs k = None \<Longrightarrow> map_of (xs @ ys) k = map_of ys k"
  by (simp add: map_add_def map_of_append split: option.splits)

lemma map_of_append_Some: "map_of xs k = Some v \<Longrightarrow> map_of (xs @ ys) k = Some v"
  by (simp add: map_add_def map_of_append split: option.splits)

lemma fed_buffers_lookup:
  "(tf, n) \<in> set [(''5m'', 5), (''15m'', 15), (''30m'', 30), (''1H'', 60), (''4H'', 240), (''1D'', 1440)]
   \<Longrightarrow> map_of (fed_buffers bs) tf = Some \<lparr>maxlen = n, items = lastn n bs\<rparr>"
  by (auto simp: fed_buffers_def mk_buffers_def)

lemma fed_result_lookup:
  assumes "(tf, n) \<in> set [(''5m'', 5), (''15m'', 15), (''30m'', 30), (''1H'', 60), (''4H'', 240), (''1D'', 1440)]"
  shows "map_of (if 1440 \<le> length bs
           then intraday_spec b (lastn 5 bs) (lastn 15 bs) (lastn 30 bs) (lastn 60 bs) (lastn 240 bs)
                   @ [(''1D'', [combine_spec (lastn 1440 bs)])] @ wm
           else intraday_spec b (lastn 5 bs) (lastn 15 bs) (lastn 30 bs) (lastn 60 bs) (lastn 240 bs)) tf
     = (if n \<le> length bs then Some [combine_spec (lastn n bs)] else None)"
  using assms
  by (auto simp: map_add_def emit_lookup length_lastn)

text \<open>
  Claim C2. The live engine is started empty and fed the 1-minute bars \<open>bs\<close> and then
  the bar \<open>b\<close>. For each of the timeframes 5m, 15m, 30m, 1H, 4H and 1D, with window sizes
  5, 15, 30, 60, 240 and 1440, the window after the call holds exactly the last \<open>n\<close> bars
  fed (all of them while fewer than \<open>n\<close> were fed); the result of the call has no entry
  for the timeframe while fewer than \<open>n\<close> bars were fed, and from the \<open>n\<close>-th bar on its
  entry is the one-element list of the combine of the last \<open>n\<close> bars. So 5m appears first
  on the fifth call, as the combine of the first five bars, and on the sixth call it is
  the combine of bars two to six.
\<close>

theorem live_sliding_window:
  "\<exists>s s' res.
     feed fts init_aggregator bs = Inr s \<and>
     add_1m_bar fts s b = Inr (s', res) \<and>
     (\<forall>(tf, n) \<in> set [(''5m'', 5), (''15m'', 15), (''30m'', 30), (''1H'', 60),
                       (''4H'', 240), (''1D'', 1440)].
        map_of (buffers s') tf
          = Some \<lparr>maxlen = n, items = drop (length (bs @ [b]) - n) (bs @ [b])\<rparr> \<and>
        (if length (bs @ [b]) < n then map_of res tf = None
         else \<exists>agg. aggregate_bars (drop (length (bs @ [b]) - n) (bs @ [b])) tf = Inr agg \<and>
                map_of res tf = Some [agg]))"
proof -
  obtain ds where f: "feed fts init_aggregator bs = Inr \<lparr>buffers = fed_buffers bs, daily_bars = ds\<rparr>"
    using feed_fed [of fts "[]" "[]" bs] by (auto simp: init_aggregator_fed)
  let ?s = "\<lparr>buffers = fed_buffers bs, daily_bars = ds\<rparr>"
  obtain s' res where a: "add_1m_bar fts ?s b = Inr (s', res)"
    and s': "buffers s' = fed_buffers (bs @ [b])"
    and res: "res = (if 1440 \<le> length (bs @ [b])
           then intraday_spec b (lastn 5 (bs @ [b])) (lastn 15 (bs @ [b]))
                   (lastn 30 (bs @ [b])) (lastn 60 (bs @ [b])) (lastn 240 (bs @ [b]))
                   @ [(''1D'', [combine_spec (lastn 1440 (bs @ [b]))])]
                   @ weekly_monthly_spec fts (ds @ [combine_spec (lastn 1440 (bs @ [b]))])
           else intraday_spec b (lastn 5 (bs @ [b])) (lastn 15 (bs @ [b]))
                   (lastn 30 (bs @ [b])) (lastn 60 (bs @ [b])) (lastn 240 (bs @ [b])))"
    by (cases "1440 \<le> Suc (length bs)") (simp_all add: add_1m_bar_fed)
  have "map_of (buffers s') tf
          = Some \<lparr>maxlen = n, items = drop (length (bs @ [b]) - n) (bs @ [b])\<rparr> \<and>
        (if length (bs @ [b]) < n then map_of res tf = None
         else \<exists>agg. aggregate_bars (drop (length (bs @ [b]) - n) (bs @ [b])) tf = Inr agg \<and>
                map_of res tf = Some [agg])"
    if m: "(tf, n) \<in> set [(''5m'', 5), (''15m'', 15), (''30m'', 30), (''1H'', 60),
                       (''4H'', 240), (''1D'', 1440)]" for tf n
  proof -
    have pos: "0 < n" using m by auto
    have l: "map_of res tf = (if n \<le> length (bs @ [b]) then Some [combine_spec (lastn n (bs @ [b]))] else None)"
      unfolding res using m by (rule fed_result_lookup)
    have ne: "lastn n (bs @ [b]) \<noteq> []"
      using pos by (simp add: lastn_nonempty)
    have agg: "aggregate_bars (lastn n (bs @ [b])) tf = Inr (combine_spec (lastn n (bs @ [b])))"
      using ne by (rule aggregate_bars_nonempty)
    show ?thesis
      using fed_buffers_lookup [OF m, of "bs @ [b]"] agg l
      unfolding s' lastn_def by (simp del: aggregate_bars.simps)
  qed
  then show ?thesis using f a by blast
qed

theorem live_sliding_window_witness:
  "\<exists>s s' res.
     feed fromtimestamp_utc init_aggregator
       [\<lparr>time = 0, open_price = 10, high = 12, low = 9, close = 11, volume = 100\<rparr>,
        \<lparr>time = 60, open_price = 11, high = 13, low = 10, close = 12, volume = 50\<rparr>,
        \<lparr>time = 120, open_price = 12, high = 15, low = 11, close = 14, volume = 20\<rparr>,
        \<lparr>time = 180, open_price = 14, high = 14, low = 8, close = 9, volume = 30\<rparr>,
        \<lparr>time = 240, open_price = 9, high = 11, low = 9, close = 10, volume = 40\<rparr>] = Inr s \<and>
     add_1m_bar fromtimestamp_utc s
       \<lparr>time = 300, open_price = 10, high = 16, low = 10, close = 15, volume = 60\<rparr> = Inr (s', res) \<and>
     map_of res ''5m'' = Some [\<lparr>time = 60, open_price = 11, high = 16, low = 8, close = 15, volume = 200\<rparr>] \<and>
     map_of res ''15m'' = None \<and>
     map_of (buffers s') ''5m'' = Some \<lparr>maxlen = 5, items =
       [\<lparr>time = 60, open_price = 11, high = 13, low = 10, close = 12, volume = 50\<rparr>,
        \<lparr>time = 120, open_price = 12, high = 15, low = 11, close = 14, volume = 20\<rparr>,
        \<lparr>time = 180, open_price = 14, high = 14, low = 8, close = 9, volume = 30\<rparr>,
        \<lparr>time = 240, open_price = 9, high = 11, low = 9, close = 10, volume = 40\<rparr>,
        \<lparr>time = 300, open_price = 10, high = 16, low = 10, close = 15, volume = 60\<rparr>]\<rparr>"
proof -
  from live_sliding_window [of fromtimestamp_utc
       "[\<lparr>time = 0, open_price = 10, high = 12, low = 9, close = 11, volume = 100\<rparr>,
        \<lparr>time = 60, open_price = 11, high = 13, low = 10, close = 12, volume = 50\<rparr>,
        \<lparr>time = 120, open_price = 12, high = 15, low = 11, close = 14, volume = 20\<rparr>,
        \<lparr>time = 180, open_price = 14, high = 14, low = 8, close = 9, volume = 30\<rparr>,
        \<lparr>time = 240, open_price = 9, high = 11, low = 9, close = 10, volume = 40\<rparr>]"
       "\<lparr>time = 300, open_price = 10, high = 16, low = 10, close = 15, volume = 60\<rparr>"]
  obtain s s' res where
    f: "feed fromtimestamp_utc init_aggregator
       [\<lparr>time = 0, open_price = 10, high = 12, low = 9, close = 11, volume = 100\<rparr>,
        \<lparr>time = 60, open_price = 11, high = 13, low = 10, close = 12, volume = 50\<rparr>,
        \<lparr>time = 120, open_price = 12, high = 15, low = 11, close = 14, volume = 20\<rparr>,
        \<lparr>time = 180, open_price = 14, high = 14, low = 8, close = 9, volume = 30\<rparr>,
        \<lparr>time = 240, open_price = 9, high = 11, low = 9, close = 10, volume = 40\<rparr>] = Inr s"
    and a: "add_1m_bar fromtimestamp_utc s
       \<lparr>time = 300, open_price = 10, high = 16, low = 10, close = 15, volume = 60\<rparr> = Inr (s', res)"
    and w: "map_of res ''5m'' = Some [\<lparr>time = 60, open_price = 11, high = 16, low = 8, close = 15, volume = 200\<rparr>]"
      "map_of res ''15m'' = None"
      "map_of (buffers s') ''5m'' = Some \<lparr>maxlen = 5, items =
       [\<lparr>time = 60, open_price = 11, high = 13, low = 10, close = 12, volume = 50\<rparr>,
        \<lparr>time = 120, open_price = 12, high = 15, low = 11, close = 14, volume = 20\<rparr>,
        \<lparr>time = 180, open_price = 14, high = 14, low = 8, close = 9, volume = 30\<rparr>,
        \<lparr>time = 240, open_price = 9, high = 11, low = 9, close = 10, volume = 40\<rparr>,
        \<lparr>time = 300, open_price = 10, high = 16, low = 10, close = 15, volume = 60\<rparr>]\<rparr>"
    by auto
  then show ?thesis by blast
qed

lemma step_result_daily:
  "map_of (step_result fts b v5 v15 v30 v60 v240 v1440 ds) ''1D''
     = (if 1440 \<le> length v1440 then Some [combine_spec v1440] else None)"
  by (simp add: step_result_def map_add_def emit_lookup)

lemma step_result_weekly:
  "map_of (step_result fts b v5 v15 v30 v60 v240 v1440 ds) ''1W''
     = (if 1440 \<le> length v1440 \<and> 5 \<le> Suc (length ds)
        then Some [combine_spec (lastn 5 (ds @ [combine_spec v1440]))] else None)"
  by (simp add: step_result_def map_add_def emit_lookup weekly_monthly_spec_def)

lemma step_result_monthly:
  "map_of (step_result fts b v5 v15 v30 v60 v240 v1440 ds) ''1M''
     = (if 1440 \<le> length v1440
        then Some [combine_spec (month_run fts (ds @ [combine_spec v1440]))] else None)"
  by (simp add: step_result_def map_add_def emit_lookup weekly_monthly_spec_def)

lemma step_result_singletons:
  "(tf, v) \<in> set (step_result fts b v5 v15 v30 v60 v240 v1440 ds) \<Longrightarrow> length v = 1"
  by (auto simp: step_result_def intraday_spec_def emit_def weekly_monthly_spec_def
        split: if_splits)

lemma step_result_distinct:
  "distinct (map fst (step_result fts b v5 v15 v30 v60 v240 v1440 ds))"
  by (simp add: step_result_def intraday_spec_def emit_def weekly_monthly_spec_def)

lemma add_1m_bar_has_windows:
  assumes "has_windows s"
  shows "\<exists>v5 v15 v30 v60 v240 v1440 s'.
           add_1m_bar fts s b
             = Inr (s', step_result fts b v5 v15 v30 v60 v240 v1440 (daily_bars s)) \<and>
           has_windows s' \<and>
           daily_bars s' = (if 1440 \<le> length v1440
                            then daily_bars s @ [combine_spec v1440] else daily_bars s)"
proof -
  obtain w5 w15 w30 w60 w240 w1440 dW dM where
    b: "buffers s = mk_buffers w5 w15 w30 w60 w240 w1440 dW dM"
    using has_windows_mk_buffers [OF assms] by blast
  have m: "maxlen dW = 5" "maxlen dM = 31"
    using assms by (simp_all add: has_windows_def b mk_buffers_def)
  have s: "s = \<lparr>buffers = mk_buffers w5 w15 w30 w60 w240 w1440 dW dM,
                 daily_bars = daily_bars s\<rparr>"
    using b by simp
  let ?v1440 = "push 1440 w1440 b"
  let ?s' = "\<lparr>buffers = mk_buffers (push 5 w5 b) (push 15 w15 b) (push 30 w30 b)
                    (push 60 w60 b) (push 240 w240 b) ?v1440 dW dM,
              daily_bars = (if 1440 \<le> length ?v1440
                            then daily_bars s @ [combine_spec ?v1440] else daily_bars s)\<rparr>"
  have "add_1m_bar fts s b
     = Inr (?s', step_result fts b (push 5 w5 b) (push 15 w15 b) (push 30 w30 b)
                    (push 60 w60 b) (push 240 w240 b) ?v1440 (daily_bars s))"
    by (subst s) (simp add: add_1m_bar_mk_buffers step_result_def)
  moreover have "has_windows ?s'"
    using m by (rule has_windows_of_mk_buffers)
  moreover have "daily_bars ?s' = (if 1440 \<le> length ?v1440
                            then daily_bars s @ [combine_spec ?v1440] else daily_bars s)"
    by simp
  ultimately show ?thesis by blast
qed

text \<open>
  Claim C4. In a live engine with its eight windows, every call of \<open>add_1m_bar\<close> returns.
  When the result has no 1D entry, the daily-bar list is unchanged and the result has no
  1W entry. When the call completes a daily bar, that bar is appended to the daily-bar
  list; if the list then holds at least 5 daily bars, the result's 1W entry is the
  one-element list of the combine of the last 5 daily bars, whatever their dates; if it
  holds fewer than 5, the result has no 1W entry.
\<close>

theorem live_weekly_rule:
  assumes "has_windows s"
  shows "\<exists>s' res. add_1m_bar fts s b = Inr (s', res) \<and>
     (case map_of res ''1D'' of
        None \<Rightarrow> daily_bars s' = daily_bars s \<and> map_of res ''1W'' = None
      | Some dl \<Rightarrow>
          (\<exists>d. dl = [d] \<and> daily_bars s' = daily_bars s @ [d]) \<and>
          (if 5 \<le> length (daily_bars s')
           then \<exists>w. aggregate_bars (drop (length (daily_bars s') - 5) (daily_bars s')) ''1W''
                      = Inr w \<and> map_of res ''1W'' = Some [w]
           else map_of res ''1W'' = None))"
proof -
  obtain v5 v15 v30 v60 v240 v1440 s' where
    a: "add_1m_bar fts s b
          = Inr (s', step_result fts b v5 v15 v30 v60 v240 v1440 (daily_bars s))"
    and d: "daily_bars s' = (if 1440 \<le> length v1440
                            then daily_bars s @ [combine_spec v1440] else daily_bars s)"
    using add_1m_bar_has_windows [OF assms, of fts b] by blast
  let ?res = "step_result fts b v5 v15 v30 v60 v240 v1440 (daily_bars s)"
  have w: "aggregate_bars (drop (length ds - 5) ds) ''1W'' = Inr (combine_spec (lastn 5 ds))"
    if "ds \<noteq> []" for ds
    using lastn_nonempty [of 5 ds] that
    by (simp add: aggregate_bars_nonempty lastn_def del: aggregate_bars.simps)
  have "case map_of ?res ''1D'' of
        None \<Rightarrow> daily_bars s' = daily_bars s \<and> map_of ?res ''1W'' = None
      | Some dl \<Rightarrow>
          (\<exists>d. dl = [d] \<and> daily_bars s' = daily_bars s @ [d]) \<and>
          (if 5 \<le> length (daily_bars s')
           then \<exists>w. aggregate_bars (drop (length (daily_bars s') - 5) (daily_bars s')) ''1W''
                      = Inr w \<and> map_of ?res ''1W'' = Some [w]
           else map_of ?res ''1W'' = None)"
  proof (cases "1440 \<le> length v1440")
    case True
    show ?thesis
      using True w [of "daily_bars s @ [combine_spec v1440]"]
      by (simp add: step_result_daily step_result_weekly d del: aggregate_bars.simps)
  next
    case False
    then show ?thesis
      by (simp add: step_result_daily step_result_weekly d)
  qed
  with a show ?thesis by blast
qed

text \<open>
  Claim C10. In a live engine with its eight windows, every call of \<open>add_1m_bar\<close>
  returns. When the result has a 1D entry, the daily-bar list is non-empty, the monthly
  aggregation of it returns a bar and not \<open>None\<close>, and the result's 1M entry is that
  bar; when the result has no 1D entry it has no 1M entry. Every entry of the result is
  a list of exactly one bar, and no timeframe has two entries.
\<close>

theorem monthly_emitted_with_daily:
  assumes "has_windows s"
  shows "\<exists>s' res. add_1m_bar fts s b = Inr (s', res) \<and>
     (map_of res ''1D'' \<noteq> None \<longrightarrow>
        daily_bars s' \<noteq> [] \<and>
        (\<exists>m. aggregate_monthly fts (daily_bars s') = Inr (Some m) \<and>
              map_of res ''1M'' = Some [m])) \<and>
     (map_of res ''1D'' = None \<longrightarrow> map_of res ''1M'' = None) \<and>
     (\<forall>(tf, v) \<in> set res. length v = 1) \<and>
     distinct (map fst res)"
proof -
  obtain v5 v15 v30 v60 v240 v1440 s' where
    a: "add_1m_bar fts s b
          = Inr (s', step_result fts b v5 v15 v30 v60 v240 v1440 (daily_bars s))"
    and d: "daily_bars s' = (if 1440 \<le> length v1440
                            then daily_bars s @ [combine_spec v1440] else daily_bars s)"
    using add_1m_bar_has_windows [OF assms, of fts b] by blast
  let ?res = "step_result fts b v5 v15 v30 v60 v240 v1440 (daily_bars s)"
  have 1: "map_of ?res ''1D'' \<noteq> None \<longrightarrow>
        daily_bars s' \<noteq> [] \<and>
        (\<exists>m. aggregate_monthly fts (daily_bars s') = Inr (Some m) \<and>
              map_of ?res ''1M'' = Some [m])"
    by (simp add: step_result_daily step_result_monthly d aggregate_monthly_run)
  have 2: "map_of ?res ''1D'' = None \<longrightarrow> map_of ?res ''1M'' = None"
    by (simp add: step_result_daily step_result_monthly)
  have 3: "\<forall>(tf, v) \<in> set ?res. length v = 1"
    using step_result_singletons by blast
  have 4: "distinct (map fst ?res)"
    by (rule step_result_distinct)
  show ?thesis
    by (rule exI [of _ s'], rule exI [of _ "?res"]) (intro conjI a 1 2 3 4)
qed

lemma push_full_replicate: "0 < n \<Longrightarrow> push n (replicate n x) x = replicate n x"
  by (cases n) (simp_all add: push_def replicate_append_same)

lemma combine_spec_replicate:
  "0 < n \<Longrightarrow> combine_spec (replicate n x)
     = \<lparr>time = time x, open_price = open_price x, high = high x, low = low x,
        close = close x, volume = real n * volume x\<rparr>"
  by (cases n) (simp_all add: combine_spec_def sum_list_replicate algebra_simps)

theorem live_weekly_rule_witness:
  "\<exists>s' res.
     add_1m_bar fromtimestamp_utc
       \<lparr>buffers =
          [(''5m'', \<lparr>maxlen = 5, items = []\<rparr>),
           (''15m'', \<lparr>maxlen = 15, items = []\<rparr>),
           (''30m'', \<lparr>maxlen = 30, items = []\<rparr>),
           (''1H'', \<lparr>maxlen = 60, items = []\<rparr>),
           (''4H'', \<lparr>maxlen = 240, items = []\<rparr>),
           (''1D'', \<lparr>maxlen = 1440, items = replicate 1440
              \<lparr>time = 345600, open_price = 10, high = 12, low = 9, close = 11, volume = 1\<rparr>\<rparr>),
           (''1W'', \<lparr>maxlen = 5, items = []\<rparr>),
           (''1M'', \<lparr>maxlen = 31, items = []\<rparr>)],
        daily_bars =
          [\<lparr>time = 0, open_price = 1, high = 5, low = 1, close = 2, volume = 10\<rparr>,
           \<lparr>time = 86400, open_price = 2, high = 20, low = 2, close = 3, volume = 20\<rparr>,
           \<lparr>time = 172800, open_price = 3, high = 7, low = 0, close = 4, volume = 30\<rparr>,
           \<lparr>time = 259200, open_price = 4, high = 8, low = 4, close = 5, volume = 40\<rparr>]\<rparr>
       \<lparr>time = 345600, open_price = 10, high = 12, low = 9, close = 11, volume = 1\<rparr>
       = Inr (s', res) \<and>
     length (daily_bars s') = 5 \<and>
     map_of res ''1W''
       = Some [\<lparr>time = 0, open_price = 1, high = 20, low = 0, close = 11, volume = 1540\<rparr>]"
proof -
  let ?B = "\<lparr>time = 345600, open_price = 10, high = 12, low = 9, close = 11, volume = 1\<rparr>"
  let ?ds = "[\<lparr>time = 0, open_price = 1, high = 5, low = 1, close = 2, volume = 10\<rparr>,
           \<lparr>time = 86400, open_price = 2, high = 20, low = 2, close = 3, volume = 20\<rparr>,
           \<lparr>time = 172800, open_price = 3, high = 7, low = 0, close = 4, volume = 30\<rparr>,
           \<lparr>time = 259200, open_price = 4, high = 8, low = 4, close = 5, volume = 40\<rparr>]"
  let ?S = "\<lparr>buffers = mk_buffers [] [] [] [] [] (replicate 1440 ?B)
                \<lparr>maxlen = 5, items = []\<rparr> \<lparr>maxlen = 31, items = []\<rparr>,
             daily_bars = ?ds\<rparr>"
  have hw: "has_windows ?S"
    by (simp add: has_windows_of_mk_buffers)
  have e: "map_of (snd (projr (add_1m_bar fromtimestamp_utc ?S ?B))) ''1D''
             = Some [\<lparr>time = 345600, open_price = 10, high = 12, low = 9, close = 11,
                      volume = 1440\<rparr>]"
    by (simp add: add_1m_bar_mk_buffers push_full_replicate combine_spec_replicate
          map_add_def emit_lookup)
  have "daily_bars ?S = ?ds" by simp
  with live_weekly_rule [OF hw, of fromtimestamp_utc ?B]
  obtain s' res where a: "add_1m_bar fromtimestamp_utc ?S ?B = Inr (s', res)"
    and c: "case map_of res ''1D'' of
        None \<Rightarrow> daily_bars s' = ?ds \<and> map_of res ''1W'' = None
      | Some dl \<Rightarrow>
          (\<exists>d. dl = [d] \<and> daily_bars s' = ?ds @ [d]) \<and>
          (if 5 \<le> length (daily_bars s')
           then \<exists>w. aggregate_bars (drop (length (daily_bars s') - 5) (daily_bars s')) ''1W''
                      = Inr w \<and> map_of res ''1W'' = Some [w]
           else map_of res ''1W'' = None)"
    by (elim exE conjE) (simp only:)
  from e a have d: "map_of res ''1D''
             = Some [\<lparr>time = 345600, open_price = 10, high = 12, low = 9, close = 11,
                      volume = 1440\<rparr>]"
    by simp
  from c d have "length (daily_bars s') = 5 \<and>
     map_of res ''1W''
       = Some [\<lparr>time = 0, open_price = 1, high = 20, low = 0, close = 11, volume = 1540\<rparr>]"
    by auto
  with a show ?thesis
    by (simp add: mk_buffers_def)
qed

lemma utc_1970_dates:
  "fromtimestamp_utc 2505600 = \<lparr>year = 1970, month = 1, day = 30\<rparr>"
  "fromtimestamp_utc 2592000 = \<lparr>year = 1970, month = 1, day = 31\<rparr>"
  "fromtimestamp_utc 2678400 = \<lparr>year = 1970, month = 2, day = 1\<rparr>"
  "fromtimestamp_utc 2764800 = \<lparr>year = 1970, month = 2, day = 2\<rparr>"
  by code_simp+

theorem monthly_emitted_with_daily_witness:
  "\<exists>s' res.
     add_1m_bar fromtimestamp_utc
       \<lparr>buffers =
          [(''5m'', \<lparr>maxlen = 5, items = []\<rparr>),
           (''15m'', \<lparr>maxlen = 15, items = []\<rparr>),
           (''30m'', \<lparr>maxlen = 30, items = []\<rparr>),
           (''1H'', \<lparr>maxlen = 60, items = []\<rparr>),
           (''4H'', \<lparr>maxlen = 240, items = []\<rparr>),
           (''1D'', \<lparr>maxlen = 1440, items = replicate 1440
              \<lparr>time = 2764800, open_price = 10, high = 12, low = 9, close = 11, volume = 1\<rparr>\<rparr>),
           (''1W'', \<lparr>maxlen = 5, items = []\<rparr>),
           (''1M'', \<lparr>maxlen = 31, items = []\<rparr>)],
        daily_bars =
          [\<lparr>time = 2505600, open_price = 1, high = 50, low = 1, close = 2, volume = 10\<rparr>,
           \<lparr>time = 2678400, open_price = 3, high = 7, low = 2, close = 4, volume = 30\<rparr>]\<rparr>
       \<lparr>time = 2764800, open_price = 10, high = 12, low = 9, close = 11, volume = 1\<rparr>
       = Inr (s', res) \<and>
     map_of res ''1D''
       = Some [\<lparr>time = 2764800, open_price = 10, high = 12, low = 9, close = 11,
                volume = 1440\<rparr>] \<and>
     map_of res ''1M''
       = Some [\<lparr>time = 2678400, open_price = 3, high = 12, low = 2, close = 11,
                volume = 1470\<rparr>] \<and>
     map_of res ''1W'' = None"
proof -
  let ?B = "\<lparr>time = 2764800, open_price = 10, high = 12, low = 9, close = 11, volume = 1\<rparr>"
  let ?D = "\<lparr>time = 2764800, open_price = 10, high = 12, low = 9, close = 11,
              volume = 1440\<rparr>"
  let ?ds = "[\<lparr>time = 2505600, open_price = 1, high = 50, low = 1, close = 2, volume = 10\<rparr>,
           \<lparr>time = 2678400, open_price = 3, high = 7, low = 2, close = 4, volume = 30\<rparr>]"
  let ?S = "\<lparr>buffers = mk_buffers [] [] [] [] [] (replicate 1440 ?B)
                \<lparr>maxlen = 5, items = []\<rparr> \<lparr>maxlen = 31, items = []\<rparr>,
             daily_bars = ?ds\<rparr>"
  have hw: "has_windows ?S"
    by (simp add: has_windows_of_mk_buffers)
  have e: "map_of (snd (projr (add_1m_bar fromtimestamp_utc ?S ?B))) ''1D'' = Some [?D]"
    "map_of (snd (projr (add_1m_bar fromtimestamp_utc ?S ?B))) ''1W'' = None"
    "daily_bars (fst (projr (add_1m_bar fromtimestamp_utc ?S ?B))) = ?ds @ [?D]"
    by (simp_all add: add_1m_bar_mk_buffers push_full_replicate combine_spec_replicate
          map_add_def emit_lookup weekly_monthly_spec_def)
  have m: "aggregate_monthly fromtimestamp_utc (?ds @ [?D])
     = Inr (Some \<lparr>time = 2678400, open_price = 3, high = 12, low = 2, close = 11,
                volume = 1470\<rparr>)"
    by (simp add: aggregate_monthly_def utc_1970_dates Let_def)
  from monthly_emitted_with_daily [OF hw, of fromtimestamp_utc ?B]
  obtain s' res where a: "add_1m_bar fromtimestamp_utc ?S ?B = Inr (s', res)"
    and c: "map_of res ''1D'' \<noteq> None \<longrightarrow>
        daily_bars s' \<noteq> [] \<and>
        (\<exists>m. aggregate_monthly fromtimestamp_utc (daily_bars s') = Inr (Some m) \<and>
              map_of res ''1M'' = Some [m])"
    by (elim exE conjE) (simp only:)
  from e a have d: "map_of res ''1D'' = Some [?D]" "map_of res ''1W'' = None"
    "daily_bars s' = ?ds @ [?D]"
    by simp_all
  from c d m have "map_of res ''1M''
       = Some [\<lparr>time = 2678400, open_price = 3, high = 12, low = 2, close = 11,
                volume = 1470\<rparr>]"
    by auto
  with a d show ?thesis
    by (simp add: mk_buffers_def)
qed

lemma month_run_split:
  assumes "ds \<noteq> []"
  shows "\<exists>pre. ds = pre @ month_run fts ds \<and>
           (\<forall>x \<in> set (month_run fts ds). same_month fts (fts (time (last ds))) x) \<and>
           (pre = [] \<or> \<not> same_month fts (fts (time (last ds))) (last pre))"
proof -
  let ?P = "same_month fts (fts (time (last ds)))"
  let ?pre = "rev (dropWhile ?P (rev ds))"
  have 1: "ds = ?pre @ month_run fts ds"
  proof -
    have "rev (dropWhile ?P (rev ds)) @ rev (takeWhile ?P (rev ds)) = rev (rev ds)"
      by (simp only: rev_append [symmetric] takeWhile_dropWhile_id)
    then show ?thesis by (simp add: month_run_def)
  qed
  have 2: "\<forall>x \<in> set (month_run fts ds). ?P x"
    by (auto simp: month_run_def dest: set_takeWhileD)
  have 3: "?pre = [] \<or> \<not> ?P (last ?pre)"
  proof (cases "dropWhile ?P (rev ds) = []")
    case True
    then show ?thesis by simp
  next
    case False
    then have "\<not> ?P (hd (dropWhile ?P (rev ds)))" by (rule hd_dropWhile)
    then show ?thesis using False by (simp add: last_rev)
  qed
  from 1 2 3 show ?thesis by blast
qed

lemma length_push_full: "1440 \<le> length (push 1440 w b) \<longleftrightarrow> 1439 \<le> length w"
  by (cases w) (auto simp: push_def)

lemma add_1m_bar_daily_window:
  assumes "has_windows s"
  shows "\<exists>buf v5 v15 v30 v60 v240 s'.
           map_of (buffers s) ''1D'' = Some buf \<and>
           add_1m_bar fts s b
             = Inr (s', step_result fts b v5 v15 v30 v60 v240 (push 1440 (items buf) b)
                          (daily_bars s)) \<and>
           daily_bars s' = (if 1440 \<le> length (push 1440 (items buf) b)
                            then daily_bars s @ [combine_spec (push 1440 (items buf) b)]
                            else daily_bars s)"
proof -
  obtain w5 w15 w30 w60 w240 w1440 dW dM where
    b: "buffers s = mk_buffers w5 w15 w30 w60 w240 w1440 dW dM"
    using has_windows_mk_buffers [OF assms] by blast
  have s: "s = \<lparr>buffers = mk_buffers w5 w15 w30 w60 w240 w1440 dW dM,
                 daily_bars = daily_bars s\<rparr>"
    using b by simp
  let ?buf = "\<lparr>maxlen = 1440, items = w1440\<rparr>"
  let ?v1440 = "push 1440 w1440 b"
  let ?s' = "\<lparr>buffers = mk_buffers (push 5 w5 b) (push 15 w15 b) (push 30 w30 b)
                    (push 60 w60 b) (push 240 w240 b) ?v1440 dW dM,
              daily_bars = (if 1440 \<le> length ?v1440
                            then daily_bars s @ [combine_spec ?v1440] else daily_bars s)\<rparr>"
  have 1: "map_of (buffers s) ''1D'' = Some ?buf"
    by (simp add: b mk_buffers_def)
  have 2: "add_1m_bar fts s b
     = Inr (?s', step_result fts b (push 5 w5 b) (push 15 w15 b) (push 30 w30 b)
                    (push 60 w60 b) (push 240 w240 b) (push 1440 (items ?buf) b) (daily_bars s))"
    by (subst s) (simp add: add_1m_bar_mk_buffers step_result_def)
  have 3: "daily_bars ?s' = (if 1440 \<le> length (push 1440 (items ?buf) b)
                            then daily_bars s @ [combine_spec (push 1440 (items ?buf) b)]
                            else daily_bars s)"
    by simp
  from 1 2 3 show ?thesis by blast
qed

text \<open>
  Claim C5. The monthly aggregation of a non-empty daily-bar list is the combine of its
  trailing run of one month: the list splits into a front part and a non-empty run, every
  bar of the run has the month and year of the most recent bar, the bar just before the
  run (if there is one) has not, and the result is the combine of the run. So after daily
  bars of January, January and February of one year the monthly bar combines the
  February bar alone, and after one more February bar it combines the two February bars.

  In a live engine with its eight windows, \<open>add_1m_bar\<close> returns; it emits a 1D bar exactly
  when the daily window held at least 1439 bars before the call; when it does, the daily
  bar is appended to the daily-bar list and the 1M entry of the result is the one-element
  list of the combine of the trailing run of that list, the run of the new daily bar's
  month and year; when it does not, the daily-bar list is unchanged and there is no 1M
  entry.
\<close>

theorem live_monthly_rule:
  "(ds \<noteq> [] \<longrightarrow>
      (\<exists>pre run agg.
         ds = pre @ run \<and> run \<noteq> [] \<and>
         (\<forall>x \<in> set run. month (fts (time x)) = month (fts (time (last ds))) \<and>
                         year (fts (time x)) = year (fts (time (last ds)))) \<and>
         (pre = [] \<or> month (fts (time (last pre))) \<noteq> month (fts (time (last ds))) \<or>
                     year (fts (time (last pre))) \<noteq> year (fts (time (last ds)))) \<and>
         aggregate_bars run ''1M'' = Inr agg \<and>
         aggregate_monthly fts ds = Inr (Some agg))) \<and>
   (month (fts (time d1)) = 1 \<and> month (fts (time d2)) = 1 \<and>
    month (fts (time d3)) = 2 \<and> month (fts (time d4)) = 2 \<and>
    year (fts (time d1)) = y \<and> year (fts (time d2)) = y \<and>
    year (fts (time d3)) = y \<and> year (fts (time d4)) = y \<longrightarrow>
      (\<exists>agg. aggregate_bars [d3] ''1M'' = Inr agg \<and>
             aggregate_monthly fts [d1, d2, d3] = Inr (Some agg)) \<and>
      (\<exists>agg. aggregate_bars [d3, d4] ''1M'' = Inr agg \<and>
             aggregate_monthly fts [d1, d2, d3, d4] = Inr (Some agg))) \<and>
   (has_windows s \<longrightarrow>
      (\<exists>buf s' res.
          map_of (buffers s) ''1D'' = Some buf \<and>
          add_1m_bar fts s b = Inr (s', res) \<and>
          (map_of res ''1D'' \<noteq> None \<longleftrightarrow> 1439 \<le> length (items buf)) \<and>
          (case map_of res ''1D'' of
             None \<Rightarrow> map_of res ''1M'' = None \<and> daily_bars s' = daily_bars s
           | Some dl \<Rightarrow>
               (\<exists>d pre run agg.
                  dl = [d] \<and> daily_bars s' = daily_bars s @ [d] \<and>
                  daily_bars s' = pre @ run \<and> run \<noteq> [] \<and>
                  (\<forall>x \<in> set run. month (fts (time x)) = month (fts (time d)) \<and>
                                  year (fts (time x)) = year (fts (time d))) \<and>
                  (pre = [] \<or> month (fts (time (last pre))) \<noteq> month (fts (time d)) \<or>
                              year (fts (time (last pre))) \<noteq> year (fts (time d))) \<and>
                  aggregate_bars run ''1M'' = Inr agg \<and>
                  aggregate_monthly fts (daily_bars s') = Inr (Some agg) \<and>
                  map_of res ''1M'' = Some [agg]))))"
proof (intro conjI impI)
  assume ne: "ds \<noteq> []"
  obtain pre where p: "ds = pre @ month_run fts ds"
    and a: "\<forall>x \<in> set (month_run fts ds). same_month fts (fts (time (last ds))) x"
    and l: "pre = [] \<or> \<not> same_month fts (fts (time (last ds))) (last pre)"
    using month_run_split [OF ne, of fts] by blast
  have r: "month_run fts ds \<noteq> []" using ne by (rule month_run_nonempty)
  have g: "aggregate_bars (month_run fts ds) ''1M'' = Inr (combine_spec (month_run fts ds))"
    using r by (rule aggregate_bars_nonempty)
  have m: "aggregate_monthly fts ds = Inr (Some (combine_spec (month_run fts ds)))"
    using ne by (rule aggregate_monthly_run)
  show "\<exists>pre run agg.
         ds = pre @ run \<and> run \<noteq> [] \<and>
         (\<forall>x \<in> set run. month (fts (time x)) = month (fts (time (last ds))) \<and>
                         year (fts (time x)) = year (fts (time (last ds)))) \<and>
         (pre = [] \<or> month (fts (time (last pre))) \<noteq> month (fts (time (last ds))) \<or>
                     year (fts (time (last pre))) \<noteq> year (fts (time (last ds)))) \<and>
         aggregate_bars run ''1M'' = Inr agg \<and>
         aggregate_monthly fts ds = Inr (Some agg)"
    apply (rule exI [of _ pre], rule exI [of _ "month_run fts ds"],
           rule exI [of _ "combine_spec (month_run fts ds)"])
    using p a l r g m by (auto simp: same_month_def)
next
  assume h: "month (fts (time d1)) = 1 \<and> month (fts (time d2)) = 1 \<and>
    month (fts (time d3)) = 2 \<and> month (fts (time d4)) = 2 \<and>
    year (fts (time d1)) = y \<and> year (fts (time d2)) = y \<and>
    year (fts (time d3)) = y \<and> year (fts (time d4)) = y"
  show "\<exists>agg. aggregate_bars [d3] ''1M'' = Inr agg \<and>
             aggregate_monthly fts [d1, d2, d3] = Inr (Some agg)"
    using h by (simp add: aggregate_monthly_def Let_def)
  show "\<exists>agg. aggregate_bars [d3, d4] ''1M'' = Inr agg \<and>
             aggregate_monthly fts [d1, d2, d3, d4] = Inr (Some agg)"
    using h by (simp add: aggregate_monthly_def Let_def)
next
  assume hw: "has_windows s"
  obtain buf v5 v15 v30 v60 v240 s' where
    bf: "map_of (buffers s) ''1D'' = Some buf"
    and a: "add_1m_bar fts s b
          = Inr (s', step_result fts b v5 v15 v30 v60 v240 (push 1440 (items buf) b)
                       (daily_bars s))"
    and d: "daily_bars s' = (if 1440 \<le> length (push 1440 (items buf) b)
                            then daily_bars s @ [combine_spec (push 1440 (items buf) b)]
                            else daily_bars s)"
    using add_1m_bar_daily_window [OF hw, of fts b] by blast
  let ?v = "push 1440 (items buf) b"
  let ?res = "step_result fts b v5 v15 v30 v60 v240 ?v (daily_bars s)"
  let ?ds = "daily_bars s @ [combine_spec ?v]"
  have i: "map_of ?res ''1D'' \<noteq> None \<longleftrightarrow> 1439 \<le> length (items buf)"
    by (simp add: step_result_daily length_push_full)
  have c: "case map_of ?res ''1D'' of
             None \<Rightarrow> map_of ?res ''1M'' = None \<and> daily_bars s' = daily_bars s
           | Some dl \<Rightarrow>
               (\<exists>d pre run agg.
                  dl = [d] \<and> daily_bars s' = daily_bars s @ [d] \<and>
                  daily_bars s' = pre @ run \<and> run \<noteq> [] \<and>
                  (\<forall>x \<in> set run. month (fts (time x)) = month (fts (time d)) \<and>
                                  year (fts (time x)) = year (fts (time d))) \<and>
                  (pre = [] \<or> month (fts (time (last pre))) \<noteq> month (fts (time d)) \<or>
                              year (fts (time (last pre))) \<noteq> year (fts (time d))) \<and>
                  aggregate_bars run ''1M'' = Inr agg \<and>
                  aggregate_monthly fts (daily_bars s') = Inr (Some agg) \<and>
                  map_of ?res ''1M'' = Some [agg])"
  proof (cases "1440 \<le> length ?v")
    case False
    then show ?thesis
      by (simp add: step_result_daily step_result_monthly d)
  next
    case True
    have ne: "?ds \<noteq> []" by simp
    obtain pre where p: "?ds = pre @ month_run fts ?ds"
      and al: "\<forall>x \<in> set (month_run fts ?ds). same_month fts (fts (time (last ?ds))) x"
      and l: "pre = [] \<or> \<not> same_month fts (fts (time (last ?ds))) (last pre)"
      using month_run_split [OF ne, of fts] by blast
    have r: "month_run fts ?ds \<noteq> []" using ne by (rule month_run_nonempty)
    have g: "aggregate_bars (month_run fts ?ds) ''1M'' = Inr (combine_spec (month_run fts ?ds))"
      using r by (rule aggregate_bars_nonempty)
    have m: "aggregate_monthly fts ?ds = Inr (Some (combine_spec (month_run fts ?ds)))"
      using ne by (rule aggregate_monthly_run)
    have ex: "\<exists>d pre run agg.
                  [combine_spec ?v] = [d] \<and> ?ds = daily_bars s @ [d] \<and>
                  ?ds = pre @ run \<and> run \<noteq> [] \<and>
                  (\<forall>x \<in> set run. month (fts (time x)) = month (fts (time d)) \<and>
                                  year (fts (time x)) = year (fts (time d))) \<and>
                  (pre = [] \<or> month (fts (time (last pre))) \<noteq> month (fts (time d)) \<or>
                              year (fts (time (last pre))) \<noteq> year (fts (time d))) \<and>
                  aggregate_bars run ''1M'' = Inr agg \<and>
                  aggregate_monthly fts ?ds = Inr (Some agg) \<and>
                  Some [combine_spec (month_run fts ?ds)] = Some [agg]"
      apply (rule exI [of _ "combine_spec ?v"], rule exI [of _ pre],
             rule exI [of _ "month_run fts ?ds"],
             rule exI [of _ "combine_spec (month_run fts ?ds)"])
      using p al l r g m by (auto simp: same_month_def)
    show ?thesis
      using True ex by (simp add: step_result_daily step_result_monthly d)
  qed
  show "(\<exists>buf s' res.
          map_of (buffers s) ''1D'' = Some buf \<and>
          add_1m_bar fts s b = Inr (s', res) \<and>
          (map_of res ''1D'' \<noteq> None \<longleftrightarrow> 1439 \<le> length (items buf)) \<and>
          (case map_of res ''1D'' of
             None \<Rightarrow> map_of res ''1M'' = None \<and> daily_bars s' = daily_bars s
           | Some dl \<Rightarrow>
               (\<exists>d pre run agg.
                  dl = [d] \<and> daily_bars s' = daily_bars s @ [d] \<and>
                  daily_bars s' = pre @ run \<and> run \<noteq> [] \<and>
                  (\<forall>x \<in> set run. month (fts (time x)) = month (fts (time d)) \<and>
                                  year (fts (time x)) = year (fts (time d))) \<and>
                  (pre = [] \<or> month (fts (time (last pre))) \<noteq> month (fts (time d)) \<or>
                              year (fts (time (last pre))) \<noteq> year (fts (time d))) \<and>
                  aggregate_bars run ''1M'' = Inr agg \<and>
                  aggregate_monthly fts (daily_bars s') = Inr (Some agg) \<and>
                  map_of res ''1M'' = Some [agg])))"
    by (rule exI [of _ buf], rule exI [of _ s'], rule exI [of _ "?res"])
       (intro conjI bf a i c)
qed

theorem live_monthly_rule_witness:
  "(\<exists>s' res.
     add_1m_bar fromtimestamp_utc
       \<lparr>buffers =
          [(''5m'', \<lparr>maxlen = 5, items = []\<rparr>),
           (''15m'', \<lparr>maxlen = 15, items = []\<rparr>),
           (''30m'', \<lparr>maxlen = 30, items = []\<rparr>),
           (''1H'', \<lparr>maxlen = 60, items = []\<rparr>),
           (''4H'', \<lparr>maxlen = 240, items = []\<rparr>),
           (''1D'', \<lparr>maxlen = 1440, items = replicate 1440
              \<lparr>time = 2678400, open_price = 3, high = 7, low = 2, close = 4, volume = 1\<rparr>\<rparr>),
           (''1W'', \<lparr>maxlen = 5, items = []\<rparr>),
           (''1M'', \<lparr>maxlen = 31, items = []\<rparr>)],
        daily_bars =
          [\<lparr>time = 2505600, open_price = 1, high = 50, low = 1, close = 2, volume = 10\<rparr>,
           \<lparr>time = 2592000, open_price = 2, high = 60, low = 0, close = 3, volume = 20\<rparr>]\<rparr>
       \<lparr>time = 2678400, open_price = 3, high = 7, low = 2, close = 4, volume = 1\<rparr> = Inr (s', res) \<and>
     map_of res ''1D'' = Some [\<lparr>time = 2678400, open_price = 3, high = 7, low = 2, close = 4, volume = 1440\<rparr>] \<and>
     map_of res ''1M'' = Some [\<lparr>time = 2678400, open_price = 3, high = 7, low = 2, close = 4, volume = 1440\<rparr>]) \<and>
   (\<exists>s' res.
     add_1m_bar fromtimestamp_utc
       \<lparr>buffers =
          [(''5m'', \<lparr>maxlen = 5, items = []\<rparr>),
           (''15m'', \<lparr>maxlen = 15, items = []\<rparr>),
           (''30m'', \<lparr>maxlen = 30, items = []\<rparr>),
           (''1H'', \<lparr>maxlen = 60, items = []\<rparr>),
           (''4H'', \<lparr>maxlen = 240, items = []\<rparr>),
           (''1D'', \<lparr>maxlen = 1440, items = replicate 1440
              \<lparr>time = 2764800, open_price = 4, high = 9, low = 3, close = 8, volume = 2\<rparr>\<rparr>),
           (''1W'', \<lparr>maxlen = 5, items = []\<rparr>),
           (''1M'', \<lparr>maxlen = 31, items = []\<rparr>)],
        daily_bars =
          [\<lparr>time = 2505600, open_price = 1, high = 50, low = 1, close = 2, volume = 10\<rparr>,
           \<lparr>time = 2592000, open_price = 2, high = 60, low = 0, close = 3, volume = 20\<rparr>,
           \<lparr>time = 2678400, open_price = 3, high = 7, low = 2, close = 4, volume = 1440\<rparr>]\<rparr>
       \<lparr>time = 2764800, open_price = 4, high = 9, low = 3, close = 8, volume = 2\<rparr> = Inr (s', res) \<and>
     map_of res ''1D'' = Some [\<lparr>time = 2764800, open_price = 4, high = 9, low = 3, close = 8, volume = 2880\<rparr>] \<and>
     map_of res ''1M'' = Some [\<lparr>time = 2678400, open_price = 3, high = 9, low = 2, close = 8, volume = 4320\<rparr>])"
proof -
  have runA: "\<exists>s' res.
     add_1m_bar fromtimestamp_utc
       \<lparr>buffers =
          [(''5m'', \<lparr>maxlen = 5, items = []\<rparr>),
           (''15m'', \<lparr>maxlen = 15, items = []\<rparr>),
           (''30m'', \<lparr>maxlen = 30, items = []\<rparr>),
           (''1H'', \<lparr>maxlen = 60, items = []\<rparr>),
           (''4H'', \<lparr>maxlen = 240, items = []\<rparr>),
           (''1D'', \<lparr>maxlen = 1440, items = replicate 1440
              \<lparr>time = 2678400, open_price = 3, high = 7, low = 2, close = 4, volume = 1\<rparr>\<rparr>),
           (''1W'', \<lparr>maxlen = 5, items = []\<rparr>),
           (''1M'', \<lparr>maxlen = 31, items = []\<rparr>)],
        daily_bars =
          [\<lparr>time = 2505600, open_price = 1, high = 50, low = 1, close = 2, volume = 10\<rparr>,
           \<lparr>time = 2592000, open_price = 2, high = 60, low = 0, close = 3, volume = 20\<rparr>]\<rparr>
       \<lparr>time = 2678400, open_price = 3, high = 7, low = 2, close = 4, volume = 1\<rparr> = Inr (s', res) \<and>
     map_of res ''1D'' = Some [\<lparr>time = 2678400, open_price = 3, high = 7, low = 2, close = 4, volume = 1440\<rparr>] \<and>
     map_of res ''1M'' = Some [\<lparr>time = 2678400, open_price = 3, high = 7, low = 2, close = 4, volume = 1440\<rparr>]"
  proof -
    let ?B = "\<lparr>time = 2678400, open_price = 3, high = 7, low = 2, close = 4, volume = 1\<rparr>"
    let ?D = "\<lparr>time = 2678400, open_price = 3, high = 7, low = 2, close = 4, volume = 1440\<rparr>"
    let ?ds = "[\<lparr>time = 2505600, open_price = 1, high = 50, low = 1, close = 2, volume = 10\<rparr>,
           \<lparr>time = 2592000, open_price = 2, high = 60, low = 0, close = 3, volume = 20\<rparr>]"
    let ?S = "\<lparr>buffers = mk_buffers [] [] [] [] [] (replicate 1440 \<lparr>time = 2678400, open_price = 3, high = 7, low = 2, close = 4, volume = 1\<rparr>)
                \<lparr>maxlen = 5, items = []\<rparr> \<lparr>maxlen = 31, items = []\<rparr>,
             daily_bars = [\<lparr>time = 2505600, open_price = 1, high = 50, low = 1, close = 2, volume = 10\<rparr>,
           \<lparr>time = 2592000, open_price = 2, high = 60, low = 0, close = 3, volume = 20\<rparr>]\<rparr>"
    have hw: "has_windows ?S"
      by (simp add: has_windows_of_mk_buffers)
    have e: "map_of (snd (projr (add_1m_bar fromtimestamp_utc ?S ?B))) ''1D'' = Some [?D]"
      by (simp add: add_1m_bar_mk_buffers push_full_replicate combine_spec_replicate
            map_add_def emit_lookup)
    have m: "aggregate_monthly fromtimestamp_utc (?ds @ [?D]) = Inr (Some \<lparr>time = 2678400, open_price = 3, high = 7, low = 2, close = 4, volume = 1440\<rparr>)"
      by (simp add: aggregate_monthly_def utc_1970_dates Let_def)
    have dss: "daily_bars ?S = ?ds" by simp
    from live_monthly_rule [of "[?D]" fromtimestamp_utc ?D ?D ?D ?D 0 ?S ?B,
        THEN conjunct2, THEN conjunct2, THEN mp, OF hw]
    have "\<exists>buf s' res.
          map_of (buffers ?S) ''1D'' = Some buf \<and>
          add_1m_bar fromtimestamp_utc ?S ?B = Inr (s', res) \<and>
          (map_of res ''1D'' \<noteq> None \<longleftrightarrow> 1439 \<le> length (items buf)) \<and>
          (case map_of res ''1D'' of
             None \<Rightarrow> map_of res ''1M'' = None \<and> daily_bars s' = ?ds
           | Some dl \<Rightarrow>
               (\<exists>d pre run agg.
                  dl = [d] \<and> daily_bars s' = ?ds @ [d] \<and>
                  daily_bars s' = pre @ run \<and> run \<noteq> [] \<and>
                  (\<forall>x \<in> set run. month (fromtimestamp_utc (time x)) = month (fromtimestamp_utc (time d)) \<and>
                                  year (fromtimestamp_utc (time x)) = year (fromtimestamp_utc (time d))) \<and>
                  (pre = [] \<or> month (fromtimestamp_utc (time (last pre))) \<noteq> month (fromtimestamp_utc (time d)) \<or>
                              year (fromtimestamp_utc (time (last pre))) \<noteq> year (fromtimestamp_utc (time d))) \<and>
                  aggregate_bars run ''1M'' = Inr agg \<and>
                  aggregate_monthly fromtimestamp_utc (daily_bars s') = Inr (Some agg) \<and>
                  map_of res ''1M'' = Some [agg]))"
      unfolding dss .
    then obtain s' res where a: "add_1m_bar fromtimestamp_utc ?S ?B = Inr (s', res)"
      and c: "case map_of res ''1D'' of
             None \<Rightarrow> map_of res ''1M'' = None \<and> daily_bars s' = ?ds
           | Some dl \<Rightarrow>
               (\<exists>d pre run agg.
                  dl = [d] \<and> daily_bars s' = ?ds @ [d] \<and>
                  daily_bars s' = pre @ run \<and> run \<noteq> [] \<and>
                  (\<forall>x \<in> set run. month (fromtimestamp_utc (time x)) = month (fromtimestamp_utc (time d)) \<and>
                                  year (fromtimestamp_utc (time x)) = year (fromtimestamp_utc (time d))) \<and>
                  (pre = [] \<or> month (fromtimestamp_utc (time (last pre))) \<noteq> month (fromtimestamp_utc (time d)) \<or>
                              year (fromtimestamp_utc (time (last pre))) \<noteq> year (fromtimestamp_utc (time d))) \<and>
                  aggregate_bars run ''1M'' = Inr agg \<and>
                  aggregate_monthly fromtimestamp_utc (daily_bars s') = Inr (Some agg) \<and>
                  map_of res ''1M'' = Some [agg])"
      by (elim exE conjE)
    from e a have d: "map_of res ''1D'' = Some [?D]"
      by simp
    from c d m have "map_of res ''1M'' = Some [\<lparr>time = 2678400, open_price = 3, high = 7, low = 2, close = 4, volume = 1440\<rparr>]"
      by auto
    with a d show ?thesis
      by (simp add: mk_buffers_def)
  qed

  have runB: "\<exists>s' res.
     add_1m_bar fromtimestamp_utc
       \<lparr>buffers =
          [(''5m'', \<lparr>maxlen = 5, items = []\<rparr>),
           (''15m'', \<lparr>maxlen = 15, items = []\<rparr>),
           (''30m'', \<lparr>maxlen = 30, items = []\<rparr>),
           (''1H'', \<lparr>maxlen = 60, items = []\<rparr>),
           (''4H'', \<lparr>maxlen = 240, items = []\<rparr>),
           (''1D'', \<lparr>maxlen = 1440, items = replicate 1440
              \<lparr>time = 2764800, open_price = 4, high = 9, low = 3, close = 8, volume = 2\<rparr>\<rparr>),
           (''1W'', \<lparr>maxlen = 5, items = []\<rparr>),
           (''1M'', \<lparr>maxlen = 31, items = []\<rparr>)],
        daily_bars =
          [\<lparr>time = 2505600, open_price = 1, high = 50, low = 1, close = 2, volume = 10\<rparr>,
           \<lparr>time = 2592000, open_price = 2, high = 60, low = 0, close = 3, volume = 20\<rparr>,
           \<lparr>time = 2678400, open_price = 3, high = 7, low = 2, close = 4, volume = 1440\<rparr>]\<rparr>
       \<lparr>time = 2764800, open_price = 4, high = 9, low = 3, close = 8, volume = 2\<rparr> = Inr (s', res) \<and>
     map_of res ''1D'' = Some [\<lparr>time = 2764800, open_price = 4, high = 9, low = 3, close = 8, volume = 2880\<rparr>] \<and>
     map_of res ''1M'' = Some [\<lparr>time = 2678400, open_price = 3, high = 9, low = 2, close = 8, volume = 4320\<rparr>]"
  proof -
    let ?B = "\<lparr>time = 2764800, open_price = 4, high = 9, low = 3, close = 8, volume = 2\<rparr>"
    let ?D = "\<lparr>time = 2764800, open_price = 4, high = 9, low = 3, close = 8, volume = 2880\<rparr>"
    let ?ds = "[\<lparr>time = 2505600, open_price = 1, high = 50, low = 1, close = 2, volume = 10\<rparr>,
           \<lparr>time = 2592000, open_price = 2, high = 60, low = 0, close = 3, volume = 20\<rparr>,
           \<lparr>time = 2678400, open_price = 3, high = 7, low = 2, close = 4, volume = 1440\<rparr>]"
    let ?S = "\<lparr>buffers = mk_buffers [] [] [] [] [] (replicate 1440 \<lparr>time = 2764800, open_price = 4, high = 9, low = 3, close = 8, volume = 2\<rparr>)
                \<lparr>maxlen = 5, items = []\<rparr> \<lparr>maxlen = 31, items = []\<rparr>,
             daily_bars = [\<lparr>time = 2505600, open_price = 1, high = 50, low = 1, close = 2, volume = 10\<rparr>,
           \<lparr>time = 2592000, open_price = 2, high = 60, low = 0, close = 3, volume = 20\<rparr>,
           \<lparr>time = 2678400, open_price = 3, high = 7, low = 2, close = 4, volume = 1440\<rparr>]\<rparr>"
    have hw: "has_windows ?S"
      by (simp add: has_windows_of_mk_buffers)
    have e: "map_of (snd (projr (add_1m_bar fromtimestamp_utc ?S ?B))) ''1D'' = Some [?D]"
      by (simp add: add_1m_bar_mk_buffers push_full_replicate combine_spec_replicate
            map_add_def emit_lookup)
    have m: "aggregate_monthly fromtimestamp_utc (?ds @ [?D]) = Inr (Some \<lparr>time = 2678400, open_price = 3, high = 9, low = 2, close = 8, volume = 4320\<rparr>)"
      by (simp add: aggregate_monthly_def utc_1970_dates Let_def)
    have dss: "daily_bars ?S = ?ds" by simp
    from live_monthly_rule [of "[?D]" fromtimestamp_utc ?D ?D ?D ?D 0 ?S ?B,
        THEN conjunct2, THEN conjunct2, THEN mp, OF hw]
    have "\<exists>buf s' res.
          map_of (buffers ?S) ''1D'' = Some buf \<and>
          add_1m_bar fromtimestamp_utc ?S ?B = Inr (s', res) \<and>
          (map_of res ''1D'' \<noteq> None \<longleftrightarrow> 1439 \<le> length (items buf)) \<and>
          (case map_of res ''1D'' of
             None \<Rightarrow> map_of res ''1M'' = None \<and> daily_bars s' = ?ds
           | Some dl \<Rightarrow>
               (\<exists>d pre run agg.
                  dl = [d] \<and> daily_bars s' = ?ds @ [d] \<and>
                  daily_bars s' = pre @ run \<and> run \<noteq> [] \<and>
                  (\<forall>x \<in> set run. month (fromtimestamp_utc (time x)) = month (fromtimestamp_utc (time d)) \<and>
                                  year (fromtimestamp_utc (time x)) = year (fromtimestamp_utc (time d))) \<and>
                  (pre = [] \<or> month (fromtimestamp_utc (time (last pre))) \<noteq> month (fromtimestamp_utc (time d)) \<or>
                              year (fromtimestamp_utc (time (last pre))) \<noteq> year (fromtimestamp_utc (time d))) \<and>
                  aggregate_bars run ''1M'' = Inr agg \<and>
                  aggregate_monthly fromtimestamp_utc (daily_bars s') = Inr (Some agg) \<and>
                  map_of res ''1M'' = Some [agg]))"
      unfolding dss .
    then obtain s' res where a: "add_1m_bar fromtimestamp_utc ?S ?B = Inr (s', res)"
      and c: "case map_of res ''1D'' of
             None \<Rightarrow> map_of res ''1M'' = None \<and> daily_bars s' = ?ds
           | Some dl \<Rightarrow>
               (\<exists>d pre run agg.
                  dl = [d] \<and> daily_bars s' = ?ds @ [d] \<and>
                  daily_bars s' = pre @ run \<and> run \<noteq> [] \<and>
                  (\<forall>x \<in> set run. month (fromtimestamp_utc (time x)) = month (fromtimestamp_utc (time d)) \<and>
                                  year (fromtimestamp_utc (time x)) = year (fromtimestamp_utc (time d))) \<and>
                  (pre = [] \<or> month (fromtimestamp_utc (time (last pre))) \<noteq> month (fromtimestamp_utc (time d)) \<or>
                              year (fromtimestamp_utc (time (last pre))) \<noteq> year (fromtimestamp_utc (time d))) \<and>
                  aggregate_bars run ''1M'' = Inr agg \<and>
                  aggregate_monthly fromtimestamp_utc (daily_bars s') = Inr (Some agg) \<and>
                  map_of res ''1M'' = Some [agg])"
      by (elim exE conjE)
    from e a have d: "map_of res ''1D'' = Some [?D]"
      by simp
    from c d m have "map_of res ''1M'' = Some [\<lparr>time = 2678400, open_price = 3, high = 9, low = 2, close = 8, volume = 4320\<rparr>]"
      by auto
    with a d show ?thesis
      by (simp add: mk_buffers_def)
  qed

  from runA runB show ?thesis by (rule conjI)
qed

lemma full_chunks_short: "length bars < n \<Longrightarrow> full_chunks n bars = []"
  by (simp add: full_chunks_def)

lemma full_chunks_step:
  assumes "0 < n" "n \<le> length bars"
  shows "full_chunks n bars = take n bars # full_chunks n (drop n bars)"
proof -
  have d: "length bars div n = Suc ((length bars - n) div n)"
    using assms by (simp add: le_div_geq)
  have "[0..<Suc ((length bars - n) div n)] = 0 # map Suc [0..<(length bars - n) div n]"
    by (simp add: upt_conv_Cons map_Suc_upt del: upt_Suc)
  then show ?thesis
    by (simp add: full_chunks_def d comp_def add.commute del: upt_Suc)
qed

lemma chunk_loop_full_chunks:
  "0 < n \<Longrightarrow>
   chunk_loop n bars i acc = Inr (acc @ map combine_spec (full_chunks n (drop i bars)))"
proof (induction n bars i acc rule: chunk_loop.induct)
  case (1 n bars i acc)
  show ?case
  proof (cases "length bars \<le> i")
    case True
    then show ?thesis
      using "1.prems" by (subst chunk_loop.simps) (simp add: full_chunks_short)
  next
    case False
    note inside = this
    show ?thesis
    proof (cases "n \<le> length (drop i bars)")
      case True
      have ne: "take n (drop i bars) \<noteq> []"
        using True "1.prems" inside by auto
      have len: "length (take n (drop i bars)) = n"
        using True by simp
      have c: "combine_chunk (take n (drop i bars)) = Inr (combine_spec (take n (drop i bars)))"
        using ne by (rule combine_chunk_nonempty)
      have ih: "chunk_loop n bars (i + n) (acc @ [combine_spec (take n (drop i bars))])
          = Inr ((acc @ [combine_spec (take n (drop i bars))])
                 @ map combine_spec (full_chunks n (drop (i + n) bars)))"
        using "1.IH"(1) [OF _ inside refl len c] "1.prems" by simp
      have f: "full_chunks n (drop i bars)
          = take n (drop i bars) # full_chunks n (drop (i + n) bars)"
        using full_chunks_step [OF "1.prems" True] by (simp add: add.commute)
      show ?thesis
        using "1.prems" inside len
        by (subst chunk_loop.simps) (simp add: Let_def c ih f del: combine_chunk.simps)
    next
      case False
      then have len: "length (take n (drop i bars)) \<noteq> n"
        by simp
      have over: "length bars \<le> i + n"
        using False by simp
      have ih: "chunk_loop n bars (i + n) acc
          = Inr (acc @ map combine_spec (full_chunks n (drop (i + n) bars)))"
        using "1.IH"(2) [OF _ inside refl len] "1.prems" by simp
      have e: "full_chunks n (drop (i + n) bars) = []" "full_chunks n (drop i bars) = []"
        using over False "1.prems" by (simp_all add: full_chunks_short)
      have lt: "length bars - i < n"
        using False by simp
      show ?thesis
        using "1.prems" inside lt
        by (subst chunk_loop.simps) (simp add: Let_def ih e full_chunks_def)
    qed
  qed
qed

lemma historical_chunked:
  assumes "(tf, n) \<in> set [(''15m'', 15), (''30m'', 30), (''1H'', 60), (''4H'', 240),
             (''1D'', 1440)]"
  shows "aggregate_historical_1m_to_timeframe fts bars tf
           = Inr (map combine_spec (full_chunks n bars))"
  using assms
  by (auto simp: aggregate_historical_1m_to_timeframe_def TIMEFRAMES_def
        chunk_loop_full_chunks)

lemma utc_first_minutes:
  "fromtimestamp_utc 0 = \<lparr>year = 1970, month = 1, day = 1\<rparr>"
  "fromtimestamp_utc 60 = \<lparr>year = 1970, month = 1, day = 1\<rparr>"
  "fromtimestamp_utc 120 = \<lparr>year = 1970, month = 1, day = 1\<rparr>"
  "fromtimestamp_utc 180 = \<lparr>year = 1970, month = 1, day = 1\<rparr>"
  "fromtimestamp_utc 240 = \<lparr>year = 1970, month = 1, day = 1\<rparr>"
  "fromtimestamp_utc 300 = \<lparr>year = 1970, month = 1, day = 1\<rparr>"
  "fromtimestamp_utc 360 = \<lparr>year = 1970, month = 1, day = 1\<rparr>"
  "fromtimestamp_utc 420 = \<lparr>year = 1970, month = 1, day = 1\<rparr>"
  "fromtimestamp_utc 480 = \<lparr>year = 1970, month = 1, day = 1\<rparr>"
  "fromtimestamp_utc 540 = \<lparr>year = 1970, month = 1, day = 1\<rparr>"
  "fromtimestamp_utc 600 = \<lparr>year = 1970, month = 1, day = 1\<rparr>"
  "fromtimestamp_utc 660 = \<lparr>year = 1970, month = 1, day = 1\<rparr>"
  by code_simp+

lemma isocalendar_week_1970_01_01:
  "isocalendar_week \<lparr>year = 1970, month = 1, day = 1\<rparr> = 1"
  by code_simp

lemma historical_5m_eval:
  "aggregate_historical_1m_to_timeframe fromtimestamp_utc
     [\<lparr>time = 0, open_price = 100, high = 110, low = 90, close = 101, volume = 10\<rparr>,
      \<lparr>time = 60, open_price = 101, high = 111, low = 91, close = 102, volume = 10\<rparr>,
      \<lparr>time = 120, open_price = 102, high = 112, low = 92, close = 103, volume = 10\<rparr>,
      \<lparr>time = 180, open_price = 103, high = 113, low = 93, close = 104, volume = 10\<rparr>,
      \<lparr>time = 240, open_price = 104, high = 114, low = 94, close = 105, volume = 10\<rparr>,
      \<lparr>time = 300, open_price = 105, high = 115, low = 95, close = 106, volume = 10\<rparr>,
      \<lparr>time = 360, open_price = 106, high = 116, low = 96, close = 107, volume = 10\<rparr>,
      \<lparr>time = 420, open_price = 107, high = 117, low = 97, close = 108, volume = 10\<rparr>,
      \<lparr>time = 480, open_price = 108, high = 118, low = 98, close = 109, volume = 10\<rparr>,
      \<lparr>time = 540, open_price = 109, high = 119, low = 99, close = 110, volume = 10\<rparr>,
      \<lparr>time = 600, open_price = 110, high = 120, low = 100, close = 111, volume = 10\<rparr>,
      \<lparr>time = 660, open_price = 111, high = 121, low = 101, close = 112, volume = 10\<rparr>] ''5m''
   = Inr [\<lparr>time = 0, open_price = 100, high = 121, low = 90, close = 112, volume = 120\<rparr>]"
  by (simp add: aggregate_historical_1m_to_timeframe_def TIMEFRAMES_def
        aggregate_to_daily_def aggregate_to_weekly_def date_of_def
        utc_first_minutes isocalendar_week_1970_01_01)

lemma upt_2: "[0..<2] = [0, Suc 0]"
  by (simp add: upt_rec)

lemma expected_5m_chunks:
  "map combine_spec (full_chunks 5
     [\<lparr>time = 0, open_price = 100, high = 110, low = 90, close = 101, volume = 10\<rparr>,
      \<lparr>time = 60, open_price = 101, high = 111, low = 91, close = 102, volume = 10\<rparr>,
      \<lparr>time = 120, open_price = 102, high = 112, low = 92, close = 103, volume = 10\<rparr>,
      \<lparr>time = 180, open_price = 103, high = 113, low = 93, close = 104, volume = 10\<rparr>,
      \<lparr>time = 240, open_price = 104, high = 114, low = 94, close = 105, volume = 10\<rparr>,
      \<lparr>time = 300, open_price = 105, high = 115, low = 95, close = 106, volume = 10\<rparr>,
      \<lparr>time = 360, open_price = 106, high = 116, low = 96, close = 107, volume = 10\<rparr>,
      \<lparr>time = 420, open_price = 107, high = 117, low = 97, close = 108, volume = 10\<rparr>,
      \<lparr>time = 480, open_price = 108, high = 118, low = 98, close = 109, volume = 10\<rparr>,
      \<lparr>time = 540, open_price = 109, high = 119, low = 99, close = 110, volume = 10\<rparr>,
      \<lparr>time = 600, open_price = 110, high = 120, low = 100, close = 111, volume = 10\<rparr>,
      \<lparr>time = 660, open_price = 111, high = 121, low = 101, close = 112, volume = 10\<rparr>])
   = [\<lparr>time = 0, open_price = 100, high = 114, low = 90, close = 105, volume = 50\<rparr>,
      \<lparr>time = 300, open_price = 105, high = 119, low = 95, close = 110, volume = 50\<rparr>]"
  by (simp add: full_chunks_def combine_spec_def upt_2)

text \<open>
  Claim C3 fails on the code at the target 5m. The batch aggregator tests
  \<open>bars_needed == 5\<close> to find the weekly target, and the bar count of 5m is 5 as well, so
  5m takes the daily-then-weekly path: twelve 1-minute bars of one day (here in UTC) give
  one bar, the combine of all twelve, where the claim has the two bars of the chunks
  1 to 5 and 6 to 10. For 15m, 30m, 1H, 4H and 1D the result is the combine of each full
  chunk (\<open>historical_chunked\<close>).
\<close>

theorem historical_5m_takes_weekly_path:
  "aggregate_historical_1m_to_timeframe fromtimestamp_utc
     [\<lparr>time = 0, open_price = 100, high = 110, low = 90, close = 101, volume = 10\<rparr>,
      \<lparr>time = 60, open_price = 101, high = 111, low = 91, close = 102, volume = 10\<rparr>,
      \<lparr>time = 120, open_price = 102, high = 112, low = 92, close = 103, volume = 10\<rparr>,
      \<lparr>time = 180, open_price = 103, high = 113, low = 93, close = 104, volume = 10\<rparr>,
      \<lparr>time = 240, open_price = 104, high = 114, low = 94, close = 105, volume = 10\<rparr>,
      \<lparr>time = 300, open_price = 105, high = 115, low = 95, close = 106, volume = 10\<rparr>,
      \<lparr>time = 360, open_price = 106, high = 116, low = 96, close = 107, volume = 10\<rparr>,
      \<lparr>time = 420, open_price = 107, high = 117, low = 97, close = 108, volume = 10\<rparr>,
      \<lparr>time = 480, open_price = 108, high = 118, low = 98, close = 109, volume = 10\<rparr>,
      \<lparr>time = 540, open_price = 109, high = 119, low = 99, close = 110, volume = 10\<rparr>,
      \<lparr>time = 600, open_price = 110, high = 120, low = 100, close = 111, volume = 10\<rparr>,
      \<lparr>time = 660, open_price = 111, high = 121, low = 101, close = 112, volume = 10\<rparr>] ''5m''
   = Inr [\<lparr>time = 0, open_price = 100, high = 121, low = 90, close = 112, volume = 120\<rparr>] \<and>
   map combine_spec (full_chunks 5
     [\<lparr>time = 0, open_price = 100, high = 110, low = 90, close = 101, volume = 10\<rparr>,
      \<lparr>time = 60, open_price = 101, high = 111, low = 91, close = 102, volume = 10\<rparr>,
      \<lparr>time = 120, open_price = 102, high = 112, low = 92, close = 103, volume = 10\<rparr>,
      \<lparr>time = 180, open_price = 103, high = 113, low = 93, close = 104, volume = 10\<rparr>,
      \<lparr>time = 240, open_price = 104, high = 114, low = 94, close = 105, volume = 10\<rparr>,
      \<lparr>time = 300, open_price = 105, high = 115, low = 95, close = 106, volume = 10\<rparr>,
      \<lparr>time = 360, open_price = 106, high = 116, low = 96, close = 107, volume = 10\<rparr>,
      \<lparr>time = 420, open_price = 107, high = 117, low = 97, close = 108, volume = 10\<rparr>,
      \<lparr>time = 480, open_price = 108, high = 118, low = 98, close = 109, volume = 10\<rparr>,
      \<lparr>time = 540, open_price = 109, high = 119, low = 99, close = 110, volume = 10\<rparr>,
      \<lparr>time = 600, open_price = 110, high = 120, low = 100, close = 111, volume = 10\<rparr>,
      \<lparr>time = 660, open_price = 111, high = 121, low = 101, close = 112, volume = 10\<rparr>])
   = [\<lparr>time = 0, open_price = 100, high = 114, low = 90, close = 105, volume = 50\<rparr>,
      \<lparr>time = 300, open_price = 105, high = 119, low = 95, close = 110, volume = 50\<rparr>]"
  using historical_5m_eval expected_5m_chunks by (rule conjI)

lemma acquire_many_snoc:
  "acquire_many (Suc n) self clock =
     (case acquire_many n self clock of
        Inl e \<Rightarrow> Inl e
      | Inr (self', clock', sleeps) \<Rightarrow>
          (case wait_if_needed self' clock' of
             Inl e \<Rightarrow> Inl e
           | Inr (self'', clock'', slept) \<Rightarrow> Inr (self'', clock'', sleeps @ [slept])))"
proof (induction n arbitrary: self clock)
  case 0
  show ?case by (simp split: sum.splits prod.splits)
next
  case (Suc n)
  show ?case
    by (subst acquire_many.simps(2), subst Suc.IH) (simp split: sum.splits prod.splits)
qed

lemma wait_if_needed_no_token:
  "wait_if_needed \<lparr>rate_limit = 25, period = 60, tokens = 0, last_update = t\<rparr> t
    = Inr (\<lparr>rate_limit = 25, period = 60, tokens = 24, last_update = t + 60 / 25\<rparr>,
           t + 60 / 25, Some (60 / 25))"
  by (simp add: wait_if_needed_def Let_def)

lemma wait_if_needed_burst_step:
  assumes "k < 25"
  shows "wait_if_needed \<lparr>rate_limit = 25, period = 60, tokens = 25 - real k, last_update = t\<rparr> t
    = Inr (\<lparr>rate_limit = 25, period = 60, tokens = 25 - real (Suc k), last_update = t\<rparr>,
           t, None)"
proof -
  have "real k \<le> 24" using assms by simp
  then show ?thesis
    by (simp add: wait_if_needed_def Let_def)
qed

lemma acquire_many_burst:
  "k \<le> 25 \<Longrightarrow>
   acquire_many k (RateLimiter_init 25 60 t) t
     = Inr (\<lparr>rate_limit = 25, period = 60, tokens = 25 - real k, last_update = t\<rparr>, t,
            replicate k None)"
proof (induction k)
  case 0
  show ?case by (simp add: RateLimiter_init_def)
next
  case (Suc k)
  then have ih: "acquire_many k (RateLimiter_init 25 60 t) t
     = Inr (\<lparr>rate_limit = 25, period = 60, tokens = 25 - real k, last_update = t\<rparr>, t,
            replicate k None)"
    by simp
  have w: "wait_if_needed \<lparr>rate_limit = 25, period = 60, tokens = 25 - real k, last_update = t\<rparr> t
    = Inr (\<lparr>rate_limit = 25, period = 60, tokens = 25 - real (Suc k), last_update = t\<rparr>,
           t, None)"
    using Suc.prems by (intro wait_if_needed_burst_step) simp
  have "acquire_many (Suc k) (RateLimiter_init 25 60 t) t
     = Inr (\<lparr>rate_limit = 25, period = 60, tokens = 25 - real (Suc k), last_update = t\<rparr>, t,
            replicate k None @ [None])"
    by (simp only: acquire_many_snoc [of k] ih w sum.case prod.case)
  then show ?case
    by (simp only: replicate_append_same replicate_Suc)
qed

lemma wait_if_needed_bounded:
  assumes "wait_if_needed self clock = Inr (self', clock', slept)"
  shows "tokens self' \<le> real_of_int (rate_limit self') \<and> rate_limit self' = rate_limit self"
proof (cases "period self = 0")
  case True
  with assms show ?thesis by (simp add: wait_if_needed_def Let_def)
next
  case False
  let ?t = "min (real_of_int (rate_limit self))
              (tokens self + (clock - last_update self)
                 * (real_of_int (rate_limit self) / real_of_int (period self)))"
  have le: "?t \<le> real_of_int (rate_limit self)" by simp
  show ?thesis
  proof (cases "?t < 1")
    case True
    with assms False show ?thesis
      by (cases "rate_limit self = 0") (auto simp: wait_if_needed_def Let_def)
  next
    case nowait: False
    with assms False have "self' = self\<lparr>tokens := ?t - 1, last_update := clock\<rparr>"
      by (auto simp: wait_if_needed_def Let_def)
    with le show ?thesis by simp
  qed
qed

lemma wait_if_needed_returns:
  assumes "period self \<noteq> 0" "rate_limit self \<noteq> 0"
  shows "\<exists>self' clock' slept. wait_if_needed self clock = Inr (self', clock', slept)"
  using assms by (simp add: wait_if_needed_def Let_def)

text \<open>
  Claim C6. A limiter made with capacity 25 and period 60 at clock \<open>t\<close>: any \<open>k \<le> 25\<close>
  calls in a row with no time passing all take the branch that does not wait, and leave
  \<open>25 - k\<close> tokens; the 26th call sleeps \<open>60 / 25\<close> seconds, after which the tokens are
  set to 25 and one is taken, leaving 24. For every limiter with non-zero capacity and
  period, in any state and at any clock value, \<open>wait_if_needed\<close> and
  \<open>get_available_tokens\<close> return, and the token count after the call, and the count
  reported, are at most the capacity.
\<close>

theorem rate_limiter_burst_and_bound:
  "(\<forall>k \<le> 25. acquire_many k (RateLimiter_init 25 60 t) t
       = Inr (\<lparr>rate_limit = 25, period = 60, tokens = 25 - real k, last_update = t\<rparr>, t,
              replicate k None)) \<and>
   acquire_many 26 (RateLimiter_init 25 60 t) t
       = Inr (\<lparr>rate_limit = 25, period = 60, tokens = 25 - 1, last_update = t + 60 / 25\<rparr>,
              t + 60 / 25, replicate 25 None @ [Some (60 / 25)]) \<and>
   (period self \<noteq> 0 \<and> rate_limit self \<noteq> 0 \<longrightarrow>
      (\<exists>self' clock' slept.
          wait_if_needed self clock = Inr (self', clock', slept) \<and>
          rate_limit self' = rate_limit self \<and>
          tokens self' \<le> real_of_int (rate_limit self')) \<and>
      (\<exists>available.
          get_available_tokens self clock = Inr available \<and>
          available \<le> real_of_int (rate_limit self)))"
proof (intro conjI allI impI)
  fix k :: nat
  assume "k \<le> 25"
  then show "acquire_many k (RateLimiter_init 25 60 t) t
       = Inr (\<lparr>rate_limit = 25, period = 60, tokens = 25 - real k, last_update = t\<rparr>, t,
              replicate k None)"
    by (rule acquire_many_burst)
next
  have b: "acquire_many 25 (RateLimiter_init 25 60 t) t
       = Inr (\<lparr>rate_limit = 25, period = 60, tokens = 0, last_update = t\<rparr>, t,
              replicate 25 None)"
    using acquire_many_burst [of 25 t] by simp
  have s: "(26::nat) = Suc 25" by simp
  have "acquire_many (Suc 25) (RateLimiter_init 25 60 t) t
       = Inr (\<lparr>rate_limit = 25, period = 60, tokens = 24, last_update = t + 60 / 25\<rparr>,
              t + 60 / 25, replicate 25 None @ [Some (60 / 25)])"
    by (simp only: acquire_many_snoc [of 25] b wait_if_needed_no_token sum.case prod.case)
  then show "acquire_many 26 (RateLimiter_init 25 60 t) t
       = Inr (\<lparr>rate_limit = 25, period = 60, tokens = 25 - 1, last_update = t + 60 / 25\<rparr>,
              t + 60 / 25, replicate 25 None @ [Some (60 / 25)])"
    unfolding s by simp
next
  assume nz: "period self \<noteq> 0 \<and> rate_limit self \<noteq> 0"
  then obtain self' clock' slept where
    w: "wait_if_needed self clock = Inr (self', clock', slept)"
    using wait_if_needed_returns [of self clock] by blast
  from wait_if_needed_bounded [OF w] w
  show "\<exists>self' clock' slept.
          wait_if_needed self clock = Inr (self', clock', slept) \<and>
          rate_limit self' = rate_limit self \<and>
          tokens self' \<le> real_of_int (rate_limit self')"
    by blast
  show "\<exists>available.
          get_available_tokens self clock = Inr available \<and>
          available \<le> real_of_int (rate_limit self)"
    using nz by (simp add: get_available_tokens_def Let_def)
qed

theorem rate_limiter_burst_and_bound_witness:
  "acquire_many 3 (RateLimiter_init 25 60 1000) 1000
     = Inr (\<lparr>rate_limit = 25, period = 60, tokens = 22, last_update = 1000\<rparr>, 1000,
            [None, None, None]) \<and>
   (\<exists>self' clock' slept.
      wait_if_needed \<lparr>rate_limit = 25, period = 60, tokens = 1 / 2, last_update = 1000\<rparr> 1000
        = Inr (self', clock', slept) \<and>
      rate_limit self' = 25 \<and> tokens self' \<le> 25) \<and>
   (\<exists>available.
      get_available_tokens \<lparr>rate_limit = 25, period = 60, tokens = 1 / 2, last_update = 1000\<rparr>
        1000 = Inr available \<and>
      available \<le> 25)"
proof -
  let ?S = "\<lparr>rate_limit = 25, period = 60, tokens = 1 / 2, last_update = 1000\<rparr>"
  note t = rate_limiter_burst_and_bound [of 1000 ?S 1000]
  have three: "(3::nat) \<le> 25" by simp
  have r: "replicate 3 None = [None, None, None :: real option]"
    by (simp add: numeral_3_eq_3)
  from t [THEN conjunct1, rule_format, OF three]
  have 1: "acquire_many 3 (RateLimiter_init 25 60 1000) 1000
     = Inr (\<lparr>rate_limit = 25, period = 60, tokens = 22, last_update = 1000\<rparr>, 1000,
            [None, None, None])"
    by (simp add: r)
  have nz: "period ?S \<noteq> 0 \<and> rate_limit ?S \<noteq> 0" by simp
  from t [THEN conjunct2, THEN conjunct2, THEN mp, OF nz]
  have 2: "(\<exists>self' clock' slept.
      wait_if_needed ?S 1000 = Inr (self', clock', slept) \<and>
      rate_limit self' = 25 \<and> tokens self' \<le> 25) \<and>
   (\<exists>available. get_available_tokens ?S 1000 = Inr available \<and> available \<le> 25)"
    by auto
  from 1 2 show ?thesis by (rule conjI)
qed









end
